theory Spec2Isabelle
  imports Main "HOL-Library.Word" "HOL-Library.AList"
begin

section \<open>JavaScript strings and values\<close>

text \<open>
  A JavaScript string is a sequence of UTF-16 code units. \<open>length\<close>, \<open>===\<close>, \<open>split('')\<close>,
  \<open>charCodeAt\<close> and the default order of \<open>sort()\<close> all work on code units, so a string is
  modelled as a list of 16-bit words. \<open>js\<close> embeds an ASCII literal.
\<close>

type_synonym jschar = "16 word"
type_synonym jsstring = "jschar list"

definition js :: "string \<Rightarrow> jsstring" where
  "js s = map of_char s"

text \<open>Truthiness of a string value: only the empty string is falsy.\<close>

definition truthy :: "jsstring \<Rightarrow> bool" where
  "truthy s = (s \<noteq> [])"

text \<open>\<open>x || d\<close> for an optional string property (\<open>None\<close> is \<open>undefined\<close>).\<close>

definition or_else :: "jsstring option \<Rightarrow> jsstring \<Rightarrow> jsstring" where
  "or_else x d = (case x of None \<Rightarrow> d | Some v \<Rightarrow> if truthy v then v else d)"

text \<open>\<open>x || 0\<close> for an optional numeric property.\<close>

definition or_zero :: "int option \<Rightarrow> int" where
  "or_zero x = (case x of None \<Rightarrow> 0 | Some v \<Rightarrow> if v \<noteq> 0 then v else 0)"

text \<open>The relational operator \<open><\<close> on two strings: lexicographic on code units.\<close>

fun js_lt :: "jsstring \<Rightarrow> jsstring \<Rightarrow> bool" where
  "js_lt [] [] = False"
| "js_lt [] (y # ys) = True"
| "js_lt (x # xs) [] = False"
| "js_lt (x # xs) (y # ys) = (x < y \<or> (x = y \<and> js_lt xs ys))"

text \<open>
  A payload value in the places where a handler tests no type: a string, or an object (an
  array, or a binary attachment, which socket.io delivers as a \<open>Buffer\<close>). Of an object the
  handlers see three things: which object it is (\<open>===\<close> and the keys of a \<open>Map\<close> compare
  objects by identity), its \<open>length\<close> property if it has one, and the string it converts to.
  A \<open>Buffer\<close> of the four bytes \<open>0x31 0x32 0x33 0x34\<close> has length 4 and converts to \<open>1234\<close>.
\<close>

datatype jsval = Str jsstring | Obj nat "nat option" jsstring

text \<open>\<open>String(v)\<close>, the conversion the regular expression test, \<open>sort\<close> and \<open>join\<close> apply.\<close>

fun text_of :: "jsval \<Rightarrow> jsstring" where
  "text_of (Str s) = s"
| "text_of (Obj i l t) = t"

text \<open>\<open>v.length\<close>; \<open>None\<close> is \<open>undefined\<close>.\<close>

fun js_length :: "jsval \<Rightarrow> nat option" where
  "js_length (Str s) = Some (length s)"
| "js_length (Obj i l t) = l"

text \<open>Truthiness of a value: every object is truthy.\<close>

fun js_truthy :: "jsval \<Rightarrow> bool" where
  "js_truthy (Str s) = truthy s"
| "js_truthy (Obj i l t) = True"

text \<open>The identities of the objects in a value.\<close>

fun identities :: "jsval \<Rightarrow> nat list" where
  "identities (Str s) = []"
| "identities (Obj i l t) = [i]"

text \<open>
  \<open>Array.prototype.sort()\<close> without a comparator: the elements are compared as the strings
  they convert to, ascending in the order above, stable.
\<close>

fun sort_insert :: "jsval \<Rightarrow> jsval list \<Rightarrow> jsval list" where
  "sort_insert x [] = [x]"
| "sort_insert x (y # ys) =
     (if js_lt (text_of y) (text_of x) then y # sort_insert x ys else x # y # ys)"

definition js_sort :: "jsval list \<Rightarrow> jsval list" where
  "js_sort xs = foldr sort_insert xs []"

text \<open>\<open>Array.prototype.join(sep)\<close>, on the strings the elements convert to.\<close>

fun join :: "jsstring \<Rightarrow> jsstring list \<Rightarrow> jsstring" where
  "join sep [] = []"
| "join sep [x] = x"
| "join sep (x # y # ys) = x @ sep @ join sep (y # ys)"

text \<open>\<open>Number.prototype.toString()\<close> on a non-negative integer: its decimal digits.\<close>

fun toString :: "nat \<Rightarrow> jsstring" where
  "toString n = (if n < 10 then [of_nat (48 + n)] else toString (n div 10) @ [of_nat (48 + n mod 10)])"

declare toString.simps [simp del]

text \<open>
  White space and line terminators of ECMAScript, the characters removed by
  \<open>String.prototype.trim()\<close> and skipped by \<open>parseInt\<close>.
\<close>

definition is_ws :: "jschar \<Rightarrow> bool" where
  "is_ws c = (c \<in> {0x9, 0xA, 0xB, 0xC, 0xD, 0x20, 0xA0, 0x1680, 0x2028, 0x2029, 0x202F, 0x205F,
                  0x3000, 0xFEFF} \<or> (0x2000 \<le> c \<and> c \<le> 0x200A))"

definition trim :: "jsstring \<Rightarrow> jsstring" where
  "trim s = rev (dropWhile is_ws (rev (dropWhile is_ws s)))"

definition is_digit :: "jschar \<Rightarrow> bool" where
  "is_digit c = (0x30 \<le> c \<and> c \<le> 0x39)"

text \<open>
  The regular expression \<open>/^\d{4}$/\<close>: \<open>\d\<close> is an ASCII digit, and without the \<open>m\<close>
  flag \<open>^\<close> and \<open>$\<close> match only at the two ends of the input.
\<close>

fun match_digits :: "nat \<Rightarrow> jsstring \<Rightarrow> bool" where
  "match_digits 0 s = (s = [])"
| "match_digits (Suc k) [] = False"
| "match_digits (Suc k) (c # cs) = (is_digit c \<and> match_digits k cs)"

definition test_d4 :: "jsstring \<Rightarrow> bool" where
  "test_d4 s = match_digits (Suc (Suc (Suc (Suc 0)))) s"

section \<open>Data model\<close>

text \<open>
  The four module-level maps of \<open>server/back-end.js\<close>. A JavaScript \<open>Map\<close> keeps its
  entries in insertion order, \<open>set\<close> on a present key replaces the value in place and on an
  absent key appends, so a \<open>Map\<close> is an association list with \<open>map_of\<close> for \<open>get\<close>,
  \<open>AList.update\<close> for \<open>set\<close> and \<open>AList.delete\<close> for \<open>delete\<close>.
\<close>

record user =
  number :: jsval
  nickname :: jsstring
  lastname :: jsstring
  photo :: jsstring
  age :: int
  email :: jsstring
  phone :: jsstring
  birthday :: jsstring
  socketId :: "jsstring option"

record message =
  msg_from :: jsval
  msg_to :: jsval
  msg_text :: jsstring
  msg_timestamp :: nat

record sign_in_request =
  req_number :: jsval
  requestingSocketId :: jsstring

record state =
  users :: "(jsval \<times> user) list"
  messages :: "(jsstring \<times> message list) list"
  activeConnections :: "(jsstring \<times> jsval) list"
  signInRequests :: "(jsstring \<times> sign_in_request) list"

definition init :: state where
  "init = \<lparr>users = [], messages = [], activeConnections = [], signInRequests = []\<rparr>"

text \<open>
  Payload of \<open>register\<close>; an absent property is \<open>None\<close>. The handler puts \<open>number\<close> through
  its guard without testing that it is a string, so \<open>number\<close> is any value.
\<close>

record user_data =
  ud_number :: "jsval option"
  ud_nickname :: "jsstring option"
  ud_lastname :: "jsstring option"
  ud_photo :: "jsstring option"
  ud_age :: "int option"
  ud_email :: "jsstring option"
  ud_phone :: "jsstring option"
  ud_birthday :: "jsstring option"

text \<open>Payload of \<open>updateProfile\<close>.\<close>

record profile_data =
  pd_nickname :: "jsstring option"
  pd_lastname :: "jsstring option"
  pd_photo :: "jsstring option"
  pd_age :: "int option"
  pd_email :: "jsstring option"
  pd_phone :: "jsstring option"
  pd_birthday :: "jsstring option"

text \<open>
  The mail handed to \<open>emailTransporter.sendMail\<close>. Its subject and HTML body are built from
  the sender's nickname, number and last name, the message text and \<open>encodeToNumbers(text)\<close>.
\<close>

record mail =
  mail_to :: jsstring
  mail_nickname :: jsstring
  mail_number :: jsstring
  mail_lastname :: jsstring
  mail_text :: jsstring

text \<open>Events sent from the server to a client.\<close>

datatype server_event =
    ErrorEv jsstring
  | Registered jsval user
  | AwaitingAuthorization jsstring
  | SignInRequestEv jsstring
  | SignInApproved jsval user
  | SignInDenied
  | ProfileUpdated "user option"
  | UserFound jsval jsstring jsstring jsstring
  | UserNotFound jsval
  | MessageSent message
  | MessageReceived message
  | ChatHistory jsval "message list"
  | IncomingCall jsval jsstring jsstring jsstring jsstring
  | CallAnswered jsval jsstring
  | IceCandidate "jsval option" jsstring
  | CallEnded "jsval option"

text \<open>
  \<open>Emit c e\<close> is \<open>socket.emit\<close> on the connection \<open>c\<close>, or \<open>io.to(c).emit\<close>: the event
  \<open>e\<close> addressed to the connection with identifier \<open>c\<close>.
\<close>

datatype effect = Emit jsstring server_event | SendMail mail

text \<open>
  A handler runs to completion and leaves a new state and the effects it produced, or a
  \<open>TypeError\<close> (a property access on \<open>undefined\<close>) escapes it: \<open>Crash\<close>.
\<close>

datatype result = Crash | Done state "effect list"

section \<open>Handlers\<close>

text \<open>The live connection of a user: \<open>if (user.socketId)\<close>.\<close>

definition live_socket :: "user \<Rightarrow> jsstring option" where
  "live_socket u = (case socketId u of None \<Rightarrow> None | Some c \<Rightarrow> if truthy c then Some c else None)"

text \<open>\<open>Array.from(users.values()).find(u => u.number === n)\<close>.\<close>

definition find_by_number :: "state \<Rightarrow> jsval \<Rightarrow> user option" where
  "find_by_number s n = find (\<lambda>u. number u = n) (map snd (users s))"

text \<open>\<open>activeConnections.get(socket.id)\<close> followed by the test \<open>if (!userId)\<close>.\<close>

definition bound_user :: "state \<Rightarrow> jsstring \<Rightarrow> jsval option" where
  "bound_user s c = (case map_of (activeConnections s) c of None \<Rightarrow> None
                     | Some userId \<Rightarrow> if js_truthy userId then Some userId else None)"

text \<open>\<open>[a, b].sort().join('-')\<close>, the key of the conversation between \<open>a\<close> and \<open>b\<close>.\<close>

definition chatId :: "jsval \<Rightarrow> jsval \<Rightarrow> jsstring" where
  "chatId a b = join (js ''-'') (map text_of (js_sort [a, b]))"

text \<open>\<open>messages.get(chatId) || []\<close>.\<close>

definition chat_log :: "state \<Rightarrow> jsstring \<Rightarrow> message list" where
  "chat_log s k = (case map_of (messages s) k of None \<Rightarrow> [] | Some ms \<Rightarrow> ms)"

text \<open>
  \<open>register\<close>. The guard is \<open>!number || number.length !== 4 || !/^\d{4}$/.test(number)\<close>;
  \<open>test\<close> converts its argument to a string. The value that passes is the key under which
  the user is looked up and stored.
\<close>

definition register :: "state \<Rightarrow> jsstring \<Rightarrow> user_data \<Rightarrow> nat \<Rightarrow> result" where
  "register s sock userData now =
    (case ud_number userData of
       None \<Rightarrow> Done s [Emit sock (ErrorEv (js ''Number must be exactly 4 digits''))]
     | Some userId \<Rightarrow>
       if \<not> js_truthy userId \<or> js_length userId \<noteq> Some 4 \<or> \<not> test_d4 (text_of userId)
       then Done s [Emit sock (ErrorEv (js ''Number must be exactly 4 digits''))]
       else
       (case map_of (users s) userId of
          Some existingUser \<Rightarrow>
            (case live_socket existingUser of
               Some other \<Rightarrow>
                 let requestId = toString now in
                 Done (s\<lparr>signInRequests :=
                          AList.update requestId
                            \<lparr>req_number = userId, requestingSocketId = sock\<rparr> (signInRequests s)\<rparr>)
                      [Emit other (SignInRequestEv requestId),
                       Emit sock (AwaitingAuthorization
                         (js ''Waiting for authorization from your other device...''))]
             | None \<Rightarrow>
                 let signedIn = existingUser\<lparr>socketId := Some sock\<rparr> in
                 Done (s\<lparr>users := AList.update userId signedIn (users s),
                         activeConnections := AList.update sock userId (activeConnections s)\<rparr>)
                      [Emit sock (Registered userId signedIn)])
        | None \<Rightarrow>
            let created = \<lparr>number = userId,
                           nickname = or_else (ud_nickname userData) (js ''User''),
                           lastname = or_else (ud_lastname userData) [],
                           photo = or_else (ud_photo userData) [],
                           age = or_zero (ud_age userData),
                           email = or_else (ud_email userData) [],
                           phone = or_else (ud_phone userData) [],
                           birthday = or_else (ud_birthday userData) [],
                           socketId = Some sock\<rparr> in
            Done (s\<lparr>users := AList.update userId created (users s),
                    activeConnections := AList.update sock userId (activeConnections s)\<rparr>)
                 [Emit sock (Registered userId created)]))"

definition approveSignIn :: "state \<Rightarrow> jsstring \<Rightarrow> jsstring \<Rightarrow> result" where
  "approveSignIn s sock requestId =
    (case map_of (signInRequests s) requestId of
       None \<Rightarrow> Done s []
     | Some request \<Rightarrow>
        (case bound_user s sock of
           None \<Rightarrow> Done s []
         | Some userId \<Rightarrow>
            (case map_of (users s) userId of
               None \<Rightarrow> Crash
             | Some user \<Rightarrow>
                 let moved = user\<lparr>socketId := Some (requestingSocketId request)\<rparr> in
                 Done (s\<lparr>users := AList.update userId moved (users s),
                         activeConnections :=
                           AList.update (requestingSocketId request) userId
                             (AList.delete sock (activeConnections s)),
                         signInRequests := AList.delete requestId (signInRequests s)\<rparr>)
                      [Emit (requestingSocketId request) (SignInApproved userId moved)])))"

definition denySignIn :: "state \<Rightarrow> jsstring \<Rightarrow> jsstring \<Rightarrow> result" where
  "denySignIn s sock requestId =
    (case map_of (signInRequests s) requestId of
       None \<Rightarrow> Done s []
     | Some request \<Rightarrow>
         Done (s\<lparr>signInRequests := AList.delete requestId (signInRequests s)\<rparr>)
              [Emit (requestingSocketId request) SignInDenied])"

definition assign :: "'a option \<Rightarrow> 'a \<Rightarrow> 'a" where
  "assign x old = (case x of None \<Rightarrow> old | Some v \<Rightarrow> v)"

definition apply_profile :: "profile_data \<Rightarrow> user \<Rightarrow> user" where
  "apply_profile p u =
     u\<lparr>nickname := assign (pd_nickname p) (nickname u),
       lastname := assign (pd_lastname p) (lastname u),
       photo := assign (pd_photo p) (photo u),
       age := assign (pd_age p) (age u),
       email := assign (pd_email p) (email u),
       phone := assign (pd_phone p) (phone u),
       birthday := assign (pd_birthday p) (birthday u)\<rparr>"

definition no_fields :: "profile_data \<Rightarrow> bool" where
  "no_fields p = (pd_nickname p = None \<and> pd_lastname p = None \<and> pd_photo p = None \<and>
     pd_age p = None \<and> pd_email p = None \<and> pd_phone p = None \<and> pd_birthday p = None)"

definition updateProfile :: "state \<Rightarrow> jsstring \<Rightarrow> profile_data \<Rightarrow> result" where
  "updateProfile s sock profileData =
    (case bound_user s sock of
       None \<Rightarrow> Done s [Emit sock (ErrorEv (js ''Not registered''))]
     | Some userId \<Rightarrow>
        (case map_of (users s) userId of
           None \<Rightarrow> if no_fields profileData then Done s [Emit sock (ProfileUpdated None)] else Crash
         | Some user \<Rightarrow>
             let updated = apply_profile profileData user in
             Done (s\<lparr>users := AList.update userId updated (users s)\<rparr>)
                  [Emit sock (ProfileUpdated (Some updated))]))"

definition getUserByNumber :: "state \<Rightarrow> jsstring \<Rightarrow> jsval \<Rightarrow> result" where
  "getUserByNumber s sock n =
    (case find_by_number s n of
       Some user \<Rightarrow> Done s [Emit sock (UserFound (number user) (nickname user) (lastname user) (photo user))]
     | None \<Rightarrow> Done s [Emit sock (UserNotFound n)])"

definition sendMessage :: "state \<Rightarrow> jsstring \<Rightarrow> jsval \<Rightarrow> jsstring \<Rightarrow> nat \<Rightarrow> result" where
  "sendMessage s sock to text now =
    (case bound_user s sock of
       None \<Rightarrow> Done s [Emit sock (ErrorEv (js ''Not registered''))]
     | Some fromUserId \<Rightarrow>
        (case find_by_number s to of
           None \<Rightarrow> Done s [Emit sock (ErrorEv (js ''Recipient not found''))]
         | Some toUser \<Rightarrow>
             let message = \<lparr>msg_from = fromUserId, msg_to = to, msg_text = text, msg_timestamp = now\<rparr>;
                 key = chatId fromUserId to;
                 s' = s\<lparr>messages := AList.update key (chat_log s key @ [message]) (messages s)\<rparr>;
                 outs = Emit sock (MessageSent message) #
                        (case live_socket toUser of
                           Some c \<Rightarrow> [Emit c (MessageReceived message)]
                         | None \<Rightarrow> [])
             in if truthy (email toUser) \<and> trim (email toUser) \<noteq> []
                then (case map_of (users s) fromUserId of
                        None \<Rightarrow> Crash
                      | Some fromUser \<Rightarrow>
                          Done s' (outs @ [SendMail \<lparr>mail_to = email toUser,
                                                     mail_nickname = nickname fromUser,
                                                     mail_number = text_of (number fromUser),
                                                     mail_lastname = lastname fromUser,
                                                     mail_text = text\<rparr>]))
                else Done s' outs))"

definition getChatHistory :: "state \<Rightarrow> jsstring \<Rightarrow> jsval \<Rightarrow> result" where
  "getChatHistory s sock targetNumber =
    (case bound_user s sock of
       None \<Rightarrow> Done s [Emit sock (ErrorEv (js ''Not registered''))]
     | Some userId \<Rightarrow>
         Done s [Emit sock (ChatHistory targetNumber (chat_log s (chatId userId targetNumber)))])"

definition initiateCall :: "state \<Rightarrow> jsstring \<Rightarrow> jsval \<Rightarrow> jsstring \<Rightarrow> result" where
  "initiateCall s sock to offer =
    (case bound_user s sock of
       None \<Rightarrow> Done s []
     | Some fromUserId \<Rightarrow>
        (case find_by_number s to of
           None \<Rightarrow> Done s []
         | Some toUser \<Rightarrow>
            (case live_socket toUser of
               None \<Rightarrow> Done s []
             | Some c \<Rightarrow>
                (case map_of (users s) fromUserId of
                   None \<Rightarrow> Crash
                 | Some fromUser \<Rightarrow>
                     Done s [Emit c (IncomingCall fromUserId (nickname fromUser)
                                       (lastname fromUser) (photo fromUser) offer)]))))"

definition answerCall :: "state \<Rightarrow> jsstring \<Rightarrow> jsval \<Rightarrow> jsstring \<Rightarrow> result" where
  "answerCall s sock to answer =
    (case bound_user s sock of
       None \<Rightarrow> Done s []
     | Some fromUserId \<Rightarrow>
        (case find_by_number s to of
           None \<Rightarrow> Done s []
         | Some toUser \<Rightarrow>
            (case live_socket toUser of
               None \<Rightarrow> Done s []
             | Some c \<Rightarrow> Done s [Emit c (CallAnswered fromUserId answer)])))"

definition iceCandidate :: "state \<Rightarrow> jsstring \<Rightarrow> jsval \<Rightarrow> jsstring \<Rightarrow> result" where
  "iceCandidate s sock to candidate =
    (case find_by_number s to of
       None \<Rightarrow> Done s []
     | Some toUser \<Rightarrow>
        (case live_socket toUser of
           None \<Rightarrow> Done s []
         | Some c \<Rightarrow> Done s [Emit c (IceCandidate (map_of (activeConnections s) sock) candidate)]))"

definition endCall :: "state \<Rightarrow> jsstring \<Rightarrow> jsval \<Rightarrow> result" where
  "endCall s sock to =
    (case find_by_number s to of
       None \<Rightarrow> Done s []
     | Some toUser \<Rightarrow>
        (case live_socket toUser of
           None \<Rightarrow> Done s []
         | Some c \<Rightarrow> Done s [Emit c (CallEnded (map_of (activeConnections s) sock))]))"

definition disconnect :: "state \<Rightarrow> jsstring \<Rightarrow> result" where
  "disconnect s sock =
    (case bound_user s sock of
       None \<Rightarrow> Done s []
     | Some userId \<Rightarrow>
         let cleared = (case map_of (users s) userId of
                          None \<Rightarrow> users s
                        | Some user \<Rightarrow> AList.update userId (user\<lparr>socketId := None\<rparr>) (users s))
         in Done (s\<lparr>users := cleared,
                    activeConnections := AList.delete sock (activeConnections s)\<rparr>) [])"

section \<open>The event loop\<close>

text \<open>
  One inbound event, with the connection it arrives on. \<open>register\<close> and \<open>sendMessage\<close> read
  the clock (\<open>Date.now()\<close>), which the event carries.
\<close>

datatype event =
    Register jsstring user_data nat
  | ApproveSignIn jsstring jsstring
  | DenySignIn jsstring jsstring
  | UpdateProfile jsstring profile_data
  | GetUserByNumber jsstring jsval
  | SendMessage jsstring jsval jsstring nat
  | GetChatHistory jsstring jsval
  | InitiateCall jsstring jsval jsstring
  | AnswerCall jsstring jsval jsstring
  | IceCandidateEv jsstring jsval jsstring
  | EndCall jsstring jsval
  | Disconnect jsstring

fun step :: "state \<Rightarrow> event \<Rightarrow> result" where
  "step s (Register c d t) = register s c d t"
| "step s (ApproveSignIn c r) = approveSignIn s c r"
| "step s (DenySignIn c r) = denySignIn s c r"
| "step s (UpdateProfile c p) = updateProfile s c p"
| "step s (GetUserByNumber c n) = getUserByNumber s c n"
| "step s (SendMessage c to text t) = sendMessage s c to text t"
| "step s (GetChatHistory c n) = getChatHistory s c n"
| "step s (InitiateCall c to x) = initiateCall s c to x"
| "step s (AnswerCall c to x) = answerCall s c to x"
| "step s (IceCandidateEv c to x) = iceCandidate s c to x"
| "step s (EndCall c to) = endCall s c to"
| "step s (Disconnect c) = disconnect s c"

text \<open>The connection an event arrives on. socket.io gives every connection a non-empty id.\<close>

fun event_socket :: "event \<Rightarrow> jsstring" where
  "event_socket (Register c d t) = c"
| "event_socket (ApproveSignIn c r) = c"
| "event_socket (DenySignIn c r) = c"
| "event_socket (UpdateProfile c p) = c"
| "event_socket (GetUserByNumber c n) = c"
| "event_socket (SendMessage c to text t) = c"
| "event_socket (GetChatHistory c n) = c"
| "event_socket (InitiateCall c to x) = c"
| "event_socket (AnswerCall c to x) = c"
| "event_socket (IceCandidateEv c to x) = c"
| "event_socket (EndCall c to) = c"
| "event_socket (Disconnect c) = c"

text \<open>The payload values of an event that the handlers take without a test of their type.\<close>

fun event_values :: "event \<Rightarrow> jsval list" where
  "event_values (Register c d t) = (case ud_number d of None \<Rightarrow> [] | Some v \<Rightarrow> [v])"
| "event_values (ApproveSignIn c r) = []"
| "event_values (DenySignIn c r) = []"
| "event_values (UpdateProfile c p) = []"
| "event_values (GetUserByNumber c n) = [n]"
| "event_values (SendMessage c to text t) = [to]"
| "event_values (GetChatHistory c n) = [n]"
| "event_values (InitiateCall c to x) = [to]"
| "event_values (AnswerCall c to x) = [to]"
| "event_values (IceCandidateEv c to x) = [to]"
| "event_values (EndCall c to) = [to]"
| "event_values (Disconnect c) = []"

text \<open>
  The objects the server holds. A handler stores a payload value only as a key of \<open>users\<close>
  (and then as \<open>number\<close>, as a binding or in a request), or after finding it as the
  \<open>number\<close> of a stored user.
\<close>

definition stored_identities :: "state \<Rightarrow> nat list" where
  "stored_identities s = concat (map (\<lambda>(k, u). identities k) (users s))"

text \<open>
  An event the server can receive in a state: its connection has a non-empty id, and an
  object in its payload is a new object, none of those the server holds.
\<close>

definition admissible :: "state \<Rightarrow> event \<Rightarrow> bool" where
  "admissible s e =
     (event_socket e \<noteq> [] \<and>
      list_all (\<lambda>v. list_all (\<lambda>i. i \<notin> set (stored_identities s)) (identities v))
        (event_values e))"

text \<open>Running a sequence of events from a state; a crash ends the process.\<close>

fun run :: "state \<Rightarrow> event list \<Rightarrow> state option" where
  "run s [] = Some s"
| "run s (e # es) =
     (if \<not> admissible s e then None
      else case step s e of Crash \<Rightarrow> None | Done s' outs \<Rightarrow> run s' es)"

definition reachable :: "state \<Rightarrow> bool" where
  "reachable s = (\<exists>es. run init es = Some s)"

section \<open>The numeric codec\<close>

text \<open>\<open>String.prototype.split(sep)\<close> for a one-character separator.\<close>

fun split_on :: "jschar \<Rightarrow> jsstring \<Rightarrow> jsstring list" where
  "split_on sep [] = [[]]"
| "split_on sep (c # cs) =
     (if c = sep then [] # split_on sep cs
      else (case split_on sep cs of [] \<Rightarrow> [[c]] | x # xs \<Rightarrow> (c # x) # xs))"

text \<open>The numbers the codec meets: \<open>NaN\<close> or an integer.\<close>

datatype js_number = NaN | Num int

text \<open>The value of a character as a digit in a radix up to 36; 36 when it is none.\<close>

definition digit_value :: "jschar \<Rightarrow> nat" where
  "digit_value c =
     (if 0x30 \<le> c \<and> c \<le> 0x39 then unat c - 48
      else if 0x61 \<le> c \<and> c \<le> 0x7A then unat c - 87
      else if 0x41 \<le> c \<and> c \<le> 0x5A then unat c - 55
      else 36)"

text \<open>
  \<open>parseInt(s)\<close> without a radix: leading white space is skipped, a sign is read, the prefix
  \<open>0x\<close> or \<open>0X\<close> selects radix 16, and the longest prefix of digits is the value; \<open>NaN\<close> when
  there is no digit. JavaScript rounds a value of 2 to the power 53 or more to a double; the model
  stops there with \<open>None\<close> instead of following the rounding.
\<close>

definition parseInt :: "jsstring \<Rightarrow> js_number option" where
  "parseInt s =
     (let s1 = dropWhile is_ws s;
          negative = (case s1 of [] \<Rightarrow> False | c # r \<Rightarrow> c = 0x2D);
          s2 = (case s1 of [] \<Rightarrow> [] | c # r \<Rightarrow> if c = 0x2D \<or> c = 0x2B then r else s1);
          hex = (case s2 of a # b # r \<Rightarrow> a = 0x30 \<and> (b = 0x78 \<or> b = 0x58) | _ \<Rightarrow> False);
          radix = (if hex then 16 else 10);
          s3 = (if hex then drop 2 s2 else s2);
          z = takeWhile (\<lambda>c. digit_value c < radix) s3;
          v = foldl (\<lambda>a c. a * radix + digit_value c) 0 z
      in if z = [] then Some NaN
         else if v < 2 ^ 53 then Some (Num (if negative then - int v else int v))
         else None)"

text \<open>\<open>String.fromCharCode(n)\<close>: the code unit \<open>n mod 2^16\<close>, and 0 for \<open>NaN\<close>.\<close>

definition fromCharCode :: "js_number \<Rightarrow> jschar" where
  "fromCharCode n = (case n of NaN \<Rightarrow> 0 | Num i \<Rightarrow> word_of_int i)"

text \<open>The function mapped over the tokens by \<open>decodeFromNumbers\<close>.\<close>

definition decode_token :: "jsstring \<Rightarrow> jschar option" where
  "decode_token num =
     (case parseInt num of
        None \<Rightarrow> None
      | Some NaN \<Rightarrow> Some (fromCharCode NaN)
      | Some (Num n) \<Rightarrow>
          Some (if n = 0 then 0x20
                else if 1 \<le> n \<and> n \<le> 26 then fromCharCode (Num (n + 64))
                else fromCharCode (Num n)))"

text \<open>\<open>decodeFromNumbers\<close>; \<open>None\<close> only where \<open>parseInt\<close> is \<open>None\<close> on a token.\<close>

definition decodeFromNumbers :: "jsstring \<Rightarrow> jsstring option" where
  "decodeFromNumbers encoded = those (map decode_token (split_on 0x2D encoded))"

text \<open>The test \<open>upper >= 'A' && upper <= 'Z'\<close>, a comparison of strings.\<close>

definition in_A_Z :: "jsstring \<Rightarrow> bool" where
  "in_A_Z upper = (\<not> js_lt upper (js ''A'') \<and> \<not> js_lt (js ''Z'') upper)"

text \<open>
  The function mapped over the characters by \<open>encodeToNumbers\<close>. \<open>String.prototype.toUpperCase\<close>
  follows the case tables of Unicode, which are not part of the source; it is the parameter
  \<open>toUpperCase\<close>, from a character to the string that is its upper case.
  \<open>charCodeAt(0)\<close> of the empty string is \<open>NaN\<close>.
\<close>

definition encode_char :: "(jschar \<Rightarrow> jsstring) \<Rightarrow> jschar \<Rightarrow> jsstring" where
  "encode_char toUpperCase c =
     (let upper = toUpperCase c in
      if c = 0x20 then js ''0''
      else if in_A_Z upper then
        (case upper of [] \<Rightarrow> js ''NaN'' | u # rest \<Rightarrow> toString (unat u - 64))
      else toString (unat c))"

definition encodeToNumbers :: "(jschar \<Rightarrow> jsstring) \<Rightarrow> jsstring \<Rightarrow> jsstring" where
  "encodeToNumbers toUpperCase text = join (js ''-'') (map (encode_char toUpperCase) text)"

text \<open>
  \<open>toUpperCase\<close> as it is on ASCII characters: the letters a to z move to A to Z and every other
  ASCII character is its own upper case. It stands for \<open>toUpperCase\<close> on ASCII texts only.
\<close>

definition toUpperCase_ascii :: "jschar \<Rightarrow> jsstring" where
  "toUpperCase_ascii c = (if 0x61 \<le> c \<and> c \<le> 0x7A then [c - 0x20] else [c])"

section \<open>The register handler of the second listing\<close>

text \<open>
  The source file carries a second listing of the server, without sign-in requests. Its
  user objects have five properties, and its \<open>register\<close> refuses a number that a stored user
  carries unless that user's \<open>socketId\<close> is the calling connection
  (\<open>existingUser && existingUser.socketId !== socket.id\<close>); otherwise it stores a new object
  built from the payload. Its \<open>disconnect\<close> is that of the first listing.
\<close>

record legacy_user =
  l_number :: jsval
  l_nickname :: jsstring
  l_lastname :: jsstring
  l_photo :: jsstring
  l_socketId :: "jsstring option"

record legacy_state =
  l_users :: "(jsval \<times> legacy_user) list"
  l_messages :: "(jsstring \<times> message list) list"
  l_activeConnections :: "(jsstring \<times> jsval) list"

record legacy_user_data =
  lud_number :: "jsval option"
  lud_nickname :: "jsstring option"
  lud_lastname :: "jsstring option"
  lud_photo :: "jsstring option"

datatype legacy_event = LegacyError jsstring | LegacyRegistered jsval legacy_user

definition legacy_register ::
  "legacy_state \<Rightarrow> jsstring \<Rightarrow> legacy_user_data \<Rightarrow> legacy_state \<times> (jsstring \<times> legacy_event) list" where
  "legacy_register s sock userData =
    (case lud_number userData of
       None \<Rightarrow> (s, [(sock, LegacyError (js ''Number must be exactly 4 digits''))])
     | Some userId \<Rightarrow>
       if \<not> js_truthy userId \<or> js_length userId \<noteq> Some 4 \<or> \<not> test_d4 (text_of userId)
       then (s, [(sock, LegacyError (js ''Number must be exactly 4 digits''))])
       else
         let taken = (case find (\<lambda>u. l_number u = userId) (map snd (l_users s)) of
                        None \<Rightarrow> False
                      | Some existingUser \<Rightarrow> l_socketId existingUser \<noteq> Some sock)
         in if taken
            then (s, [(sock, LegacyError (js ''This number is already taken''))])
            else
              let created = \<lparr>l_number = userId,
                             l_nickname = or_else (lud_nickname userData) (js ''User''),
                             l_lastname = or_else (lud_lastname userData) [],
                             l_photo = or_else (lud_photo userData) [],
                             l_socketId = Some sock\<rparr>
              in (s\<lparr>l_users := AList.update userId created (l_users s),
                     l_activeConnections := AList.update sock userId (l_activeConnections s)\<rparr>,
                  [(sock, LegacyRegistered userId created)]))"

definition legacy_disconnect :: "legacy_state \<Rightarrow> jsstring \<Rightarrow> legacy_state" where
  "legacy_disconnect s sock =
    (case map_of (l_activeConnections s) sock of
       None \<Rightarrow> s
     | Some userId \<Rightarrow>
         if \<not> js_truthy userId then s
         else
           let cleared = (case map_of (l_users s) userId of
                            None \<Rightarrow> l_users s
                          | Some user \<Rightarrow> AList.update userId (user\<lparr>l_socketId := None\<rparr>) (l_users s))
           in s\<lparr>l_users := cleared,
                l_activeConnections := AList.delete sock (l_activeConnections s)\<rparr>)"

definition legacy_init :: legacy_state where
  "legacy_init = \<lparr>l_users = [], l_messages = [], l_activeConnections = []\<rparr>"

section \<open>Concrete inputs\<close>

text \<open>A string as a payload value.\<close>

definition str :: "string \<Rightarrow> jsval" where
  "str s = Str (js s)"

text \<open>A \<open>register\<close> payload that carries only a number.\<close>

definition only_number :: "jsval \<Rightarrow> user_data" where
  "only_number n = \<lparr>ud_number = Some n, ud_nickname = None, ud_lastname = None, ud_photo = None,
     ud_age = None, ud_email = None, ud_phone = None, ud_birthday = None\<rparr>"

text \<open>The record \<open>register\<close> creates from such a payload on the connection \<open>c\<close>.\<close>

definition fresh_user :: "jsval \<Rightarrow> jsstring option \<Rightarrow> user" where
  "fresh_user n c = \<lparr>number = n, nickname = js ''User'', lastname = [], photo = [], age = 0,
     email = [], phone = [], birthday = [], socketId = c\<rparr>"

text \<open>User 1111 signed in on connection \<open>c1\<close>, and the same user after \<open>c1\<close> has gone.\<close>

definition alice_online :: state where
  "alice_online = \<lparr>users = [(str ''1111'', fresh_user (str ''1111'') (Some (js ''c1'')))],
     messages = [], activeConnections = [(js ''c1'', str ''1111'')], signInRequests = []\<rparr>"

definition alice_offline :: state where
  "alice_offline = \<lparr>users = [(str ''1111'', fresh_user (str ''1111'') None)],
     messages = [], activeConnections = [], signInRequests = []\<rparr>"

text \<open>Users 1111 and 2222, both signed in; and with 2222 gone.\<close>

definition alice_bob_online :: state where
  "alice_bob_online =
     \<lparr>users = [(str ''1111'', fresh_user (str ''1111'') (Some (js ''c1''))),
               (str ''2222'', fresh_user (str ''2222'') (Some (js ''c2'')))],
      messages = [],
      activeConnections = [(js ''c1'', str ''1111''), (js ''c2'', str ''2222'')],
      signInRequests = []\<rparr>"

definition alice_bob_offline :: state where
  "alice_bob_offline =
     \<lparr>users = [(str ''1111'', fresh_user (str ''1111'') (Some (js ''c1''))),
               (str ''2222'', fresh_user (str ''2222'') None)],
      messages = [],
      activeConnections = [(js ''c1'', str ''1111'')],
      signInRequests = []\<rparr>"

text \<open>The message object \<open>sendMessage\<close> builds.\<close>

definition sent :: "jsval \<Rightarrow> jsval \<Rightarrow> jsstring \<Rightarrow> nat \<Rightarrow> message" where
  "sent a b body now = \<lparr>msg_from = a, msg_to = b, msg_text = body, msg_timestamp = now\<rparr>"

text \<open>Connection \<open>c1\<close> has registered 1111 and then 2222.\<close>

definition twice_registered :: state where
  "twice_registered =
     \<lparr>users = [(str ''1111'', fresh_user (str ''1111'') (Some (js ''c1''))),
               (str ''2222'', fresh_user (str ''2222'') (Some (js ''c1'')))],
      messages = [],
      activeConnections = [(js ''c1'', str ''2222'')],
      signInRequests = []\<rparr>"

text \<open>
  Users 1111 on \<open>c1\<close> and 2222 on \<open>c2\<close>; the connection \<open>c3\<close> has asked for 1111 at time 42.
  Then the state after \<open>c2\<close> has approved that request.
\<close>

definition sign_in_pending :: state where
  "sign_in_pending =
     \<lparr>users = [(str ''1111'', fresh_user (str ''1111'') (Some (js ''c1''))),
               (str ''2222'', fresh_user (str ''2222'') (Some (js ''c2'')))],
      messages = [],
      activeConnections = [(js ''c1'', str ''1111''), (js ''c2'', str ''2222'')],
      signInRequests = [(js ''42'', \<lparr>req_number = str ''1111'', requestingSocketId = js ''c3''\<rparr>)]\<rparr>"

definition identity_taken :: state where
  "identity_taken =
     \<lparr>users = [(str ''1111'', fresh_user (str ''1111'') (Some (js ''c1''))),
               (str ''2222'', fresh_user (str ''2222'') (Some (js ''c3'')))],
      messages = [],
      activeConnections = [(js ''c1'', str ''1111''), (js ''c3'', str ''2222'')],
      signInRequests = []\<rparr>"

text \<open>The state after \<open>c1\<close>, the live session of 1111, has approved that request.\<close>

definition handed_over :: state where
  "handed_over =
     \<lparr>users = [(str ''1111'', fresh_user (str ''1111'') (Some (js ''c3''))),
               (str ''2222'', fresh_user (str ''2222'') (Some (js ''c2'')))],
      messages = [],
      activeConnections = [(js ''c2'', str ''2222''), (js ''c3'', str ''1111'')],
      signInRequests = []\<rparr>"




text \<open>The same for the second listing: a payload with only a number, and user 1111 offline.\<close>

definition legacy_only_number :: "jsval \<Rightarrow> legacy_user_data" where
  "legacy_only_number n =
     \<lparr>lud_number = Some n, lud_nickname = None, lud_lastname = None, lud_photo = None\<rparr>"

definition legacy_fresh_user :: "jsval \<Rightarrow> jsstring option \<Rightarrow> legacy_user" where
  "legacy_fresh_user n c =
     \<lparr>l_number = n, l_nickname = js ''User'', l_lastname = [], l_photo = [], l_socketId = c\<rparr>"

definition legacy_alice_offline :: legacy_state where
  "legacy_alice_offline = \<lparr>l_users = [(str ''1111'', legacy_fresh_user (str ''1111'') None)],
     l_messages = [], l_activeConnections = []\<rparr>"

section \<open>Predicates on identifiers, states and characters\<close>

text \<open>An identifier as the data model has it: exactly four ASCII digits.\<close>

definition four_digits :: "jsstring \<Rightarrow> bool" where
  "four_digits n = (length n = 4 \<and> (\<forall>c \<in> set n. 0x30 \<le> c \<and> c \<le> 0x39))"

text \<open>
  A value that has length 4 and converts to four ASCII digits. Of the strings these are the
  identifiers; of the objects, a \<open>Buffer\<close> of four digit bytes is one.
\<close>

definition is_identifier :: "jsval \<Rightarrow> bool" where
  "is_identifier v = (js_length v = Some 4 \<and> four_digits (text_of v))"

text \<open>
  What the handlers keep true of the four maps. Every stored user sits under its own number,
  a value of length 4 that converts to four digits. Every bound connection has a non-empty
  id and is the \<open>socketId\<close> of the user it is bound to. Every logged message sits under the
  key of its two participants, both of them numbers of stored users. Every pending request
  names a non-empty connection.
\<close>

definition users_ok :: "(jsval \<times> user) list \<Rightarrow> bool" where
  "users_ok us = (\<forall>(k, u) \<in> set us. number u = k \<and> is_identifier k)"

definition bindings_ok :: "(jsval \<times> user) list \<Rightarrow> (jsstring \<times> jsval) list \<Rightarrow> bool" where
  "bindings_ok us ac = (\<forall>c k. map_of ac c = Some k \<longrightarrow>
      c \<noteq> [] \<and> (\<exists>u. map_of us k = Some u \<and> socketId u = Some c))"

definition logs_ok :: "(jsval \<times> user) list \<Rightarrow> (jsstring \<times> message list) list \<Rightarrow> bool" where
  "logs_ok us ms = (\<forall>k l. map_of ms k = Some l \<longrightarrow>
      (\<forall>m \<in> set l. k = chatId (msg_from m) (msg_to m) \<and>
         msg_from m \<in> fst ` set us \<and> msg_to m \<in> fst ` set us))"

definition requests_ok :: "(jsstring \<times> sign_in_request) list \<Rightarrow> bool" where
  "requests_ok rs = (\<forall>r q. map_of rs r = Some q \<longrightarrow> requestingSocketId q \<noteq> [])"

definition wf_state :: "state \<Rightarrow> bool" where
  "wf_state s = (users_ok (users s) \<and> bindings_ok (users s) (activeConnections s) \<and>
     logs_ok (users s) (messages s) \<and> requests_ok (signInRequests s))"


text \<open>
  The number \<open>encodeToNumbers\<close> writes for a character, and the character
  \<open>decodeFromNumbers\<close> reads from a number below 65536.
\<close>

definition token_code :: "(jschar \<Rightarrow> jsstring) \<Rightarrow> jschar \<Rightarrow> nat" where
  "token_code up c =
     (if c = 0x20 then 0 else if in_A_Z (up c) then unat (hd (up c)) - 64 else unat c)"

definition decode_code :: "nat \<Rightarrow> jschar" where
  "decode_code k = (if k = 0 then 0x20 else if k \<le> 26 then of_nat (k + 64) else of_nat k)"

text \<open>
  The characters the codec gives back unchanged: the space; a character whose upper case
  lies between \<open>A\<close> and \<open>Z\<close> and begins with the character itself (the letters A to Z); a
  character whose upper case lies outside that range and whose code is above 26.
\<close>

definition preserved :: "(jschar \<Rightarrow> jsstring) \<Rightarrow> jschar \<Rightarrow> bool" where
  "preserved toUpperCase c =
     (c = 0x20 \<or>
      (if in_A_Z (toUpperCase c) then (case toUpperCase c of [] \<Rightarrow> False | u # rest \<Rightarrow> u = c)
       else 26 < c))"

section \<open>Basic facts\<close>

lemma match_digits_iff: "match_digits k s \<longleftrightarrow> length s = k \<and> (\<forall>c \<in> set s. is_digit c)"
  by (induction k s rule: match_digits.induct) auto

lemma test_d4_iff: "test_d4 s \<longleftrightarrow> four_digits s"
  by (auto simp: test_d4_def four_digits_def match_digits_iff is_digit_def)

lemma is_identifier_Str [simp]: "is_identifier (Str s) \<longleftrightarrow> four_digits s"
  by (auto simp: is_identifier_def four_digits_def)

lemma is_identifier_truthy: "is_identifier n \<Longrightarrow> js_truthy n"
  by (cases n) (auto simp: four_digits_def truthy_def)

lemma guard_iff:
  "(\<not> js_truthy n \<or> js_length n \<noteq> Some 4 \<or> \<not> test_d4 (text_of n)) \<longleftrightarrow> \<not> is_identifier n"
  using is_identifier_truthy [of n] by (auto simp: test_d4_iff is_identifier_def)

lemma fd: "is_identifier (str ''1111'')" "is_identifier (str ''2222'')"
  by (simp_all add: str_def four_digits_def js_def)

lemma ne:
  "js ''c1'' \<noteq> []" "js ''c2'' \<noteq> []" "js ''c3'' \<noteq> []"
  "js_truthy (str ''1111'')" "js_truthy (str ''2222'')"
  "str ''1111'' \<noteq> str ''2222''" "str ''2222'' \<noteq> str ''1111''"
  "js ''c1'' \<noteq> js ''c2''" "js ''c2'' \<noteq> js ''c1''"
  "js ''c1'' \<noteq> js ''c3''" "js ''c3'' \<noteq> js ''c1''"
  "js ''c2'' \<noteq> js ''c3''" "js ''c3'' \<noteq> js ''c2''"
  by (simp_all add: js_def str_def truthy_def)

lemma no_identities [simp]: "identities (str x) = []"
  by (simp add: str_def)

lemma text_of_str [simp]: "text_of (str x) = js x"
  by (simp add: str_def)

lemma admissible_strings:
  "admissible s e \<longleftrightarrow> event_socket e \<noteq> []" if "list_all (\<lambda>v. identities v = []) (event_values e)"
proof -
  from that have "list_all (\<lambda>v. list_all (\<lambda>i. i \<notin> set (stored_identities s)) (identities v))
        (event_values e)"
    by (induction "event_values e") (auto simp: list_all_iff)
  then show ?thesis by (simp add: admissible_def)
qed

lemma admissible_concrete [simp]:
  "admissible s (Register c (only_number (str x)) t) \<longleftrightarrow> c \<noteq> []"
  "admissible s (SendMessage c (str x) body t) \<longleftrightarrow> c \<noteq> []"
  "admissible s (Disconnect c) \<longleftrightarrow> c \<noteq> []"
  by (simp_all add: admissible_strings only_number_def)

lemma toString_42: "toString 42 = js ''42''"
  by (simp add: toString.simps js_def)

section \<open>Identifier validation\<close>

lemma register_malformed:
  assumes "\<not> (\<exists>n. ud_number d = Some n \<and> is_identifier n)"
  shows "register s sock d now =
           Done s [Emit sock (ErrorEv (js ''Number must be exactly 4 digits''))]"
proof (cases "ud_number d")
  case None
  then show ?thesis by (simp add: register_def)
next
  case (Some n)
  with assms have "\<not> is_identifier n" by simp
  then have "\<not> js_truthy n \<or> js_length n \<noteq> Some 4 \<or> \<not> test_d4 (text_of n)"
    using guard_iff [of n] by blast
  with Some show ?thesis by (simp add: register_def)
qed



section \<open>Registration of an existing user\<close>

lemma register_existing:
  assumes "ud_number d = Some n" and "is_identifier n" and "map_of (users s) n = Some u"
  shows "register s sock d now =
    (case live_socket u of
       Some other \<Rightarrow>
         Done (s\<lparr>signInRequests :=
                  AList.update (toString now) \<lparr>req_number = n, requestingSocketId = sock\<rparr>
                    (signInRequests s)\<rparr>)
              [Emit other (SignInRequestEv (toString now)),
               Emit sock (AwaitingAuthorization
                 (js ''Waiting for authorization from your other device...''))]
     | None \<Rightarrow>
         Done (s\<lparr>users := AList.update n (u\<lparr>socketId := Some sock\<rparr>) (users s),
                 activeConnections := AList.update sock n (activeConnections s)\<rparr>)
              [Emit sock (Registered n (u\<lparr>socketId := Some sock\<rparr>))])"
proof -
  from assms(2) have "\<not> (\<not> js_truthy n \<or> js_length n \<noteq> Some 4 \<or> \<not> test_d4 (text_of n))"
    using guard_iff [of n] by blast
  with assms(1,3) show ?thesis
    by (simp add: register_def Let_def split: option.split)
qed

lemma register_offline_user:
  assumes "ud_number d = Some n" and "is_identifier n"
    and "map_of (users s) n = Some u" and "socketId u = None"
  shows "\<exists>s'. register s sock d now = Done s' [Emit sock (Registered n (u\<lparr>socketId := Some sock\<rparr>))] \<and>
           users s' = AList.update n (u\<lparr>socketId := Some sock\<rparr>) (users s) \<and>
           map_of (users s') n = Some (u\<lparr>socketId := Some sock\<rparr>) \<and>
           map_of (activeConnections s') sock = Some n \<and>
           signInRequests s' = signInRequests s \<and> messages s' = messages s"
proof -
  from assms(4) have "live_socket u = None" by (simp add: live_socket_def)
  then show ?thesis
    using register_existing [OF assms(1,2,3), of sock now]
    by (simp add: update_conv')
qed

lemma legacy_register_taken:
  assumes "lud_number d = Some n" and "is_identifier n"
    and "find (\<lambda>v. l_number v = n) (map snd (l_users s)) = Some u"
    and "l_socketId u \<noteq> Some sock"
  shows "legacy_register s sock d = (s, [(sock, LegacyError (js ''This number is already taken''))])"
proof -
  from assms(2) have "\<not> (\<not> js_truthy n \<or> js_length n \<noteq> Some 4 \<or> \<not> test_d4 (text_of n))"
    using guard_iff [of n] by blast
  with assms(1,3,4) show ?thesis
    by (simp add: legacy_register_def Let_def)
qed

text \<open>
  C3 as stated fails on the register handler of the second listing. There, after \<open>c1\<close> has
  registered 1111 and disconnected, user 1111 exists with \<open>socketId\<close> \<open>null\<close>, and a
  \<open>register\<close> for 1111 from \<open>c2\<close> is answered with \<open>This number is already taken\<close> and changes
  nothing.
\<close>

theorem legacy_register_rejects_offline_user:
  "legacy_disconnect
     (fst (legacy_register legacy_init (js ''c1'') (legacy_only_number (str ''1111'')))) (js ''c1'')
     = legacy_alice_offline \<and>
   legacy_register legacy_alice_offline (js ''c2'') (legacy_only_number (str ''1111'')) =
     (legacy_alice_offline, [(js ''c2'', LegacyError (js ''This number is already taken''))])"
proof
  show "legacy_disconnect
     (fst (legacy_register legacy_init (js ''c1'') (legacy_only_number (str ''1111'')))) (js ''c1'')
     = legacy_alice_offline"
    using guard_iff [of "str ''1111''"] fd(1)
    by (simp add: legacy_register_def legacy_disconnect_def legacy_init_def legacy_only_number_def
        legacy_fresh_user_def legacy_alice_offline_def or_else_def Let_def truthy_def ne)
  show "legacy_register legacy_alice_offline (js ''c2'') (legacy_only_number (str ''1111'')) =
     (legacy_alice_offline, [(js ''c2'', LegacyError (js ''This number is already taken''))])"
    by (rule legacy_register_taken [where n = "str ''1111''"
          and u = "legacy_fresh_user (str ''1111'') None"])
       (simp_all add: legacy_only_number_def fd legacy_alice_offline_def legacy_fresh_user_def)
qed

text \<open>
  C3, amended. In the register handler of the first listing (the one with sign-in requests):
  when the user \<open>n\<close> exists and its \<open>socketId\<close> is \<open>null\<close>, a \<open>register\<close> call for \<open>n\<close> from any
  connection binds that connection as the user's live session, sends the caller
  \<open>registered\<close> with the stored record, leaves every stored profile field as it was whatever
  the payload carries, and leaves the pending sign-in requests as they were. In the register
  handler of the second listing the same call is refused with \<open>This number is already taken\<close>
  and the state stays as it was.
\<close>

theorem register_signs_in_offline_user:
  "(ud_number d = Some n \<and> is_identifier n \<and> map_of (users s) n = Some u \<and> socketId u = None \<longrightarrow>
      (\<exists>s'. register s sock d now =
               Done s' [Emit sock (Registered n (u\<lparr>socketId := Some sock\<rparr>))] \<and>
             users s' = AList.update n (u\<lparr>socketId := Some sock\<rparr>) (users s) \<and>
             map_of (users s') n = Some (u\<lparr>socketId := Some sock\<rparr>) \<and>
             map_of (activeConnections s') sock = Some n \<and>
             signInRequests s' = signInRequests s \<and> messages s' = messages s)) \<and>
   (lud_number ld = Some n \<and> is_identifier n \<and>
    find (\<lambda>v. l_number v = n) (map snd (l_users ls)) = Some lu \<and> l_socketId lu = None \<longrightarrow>
      legacy_register ls sock ld =
        (ls, [(sock, LegacyError (js ''This number is already taken''))]))"
proof (intro conjI impI)
  assume "ud_number d = Some n \<and> is_identifier n \<and> map_of (users s) n = Some u \<and> socketId u = None"
  then show "\<exists>s'. register s sock d now =
               Done s' [Emit sock (Registered n (u\<lparr>socketId := Some sock\<rparr>))] \<and>
             users s' = AList.update n (u\<lparr>socketId := Some sock\<rparr>) (users s) \<and>
             map_of (users s') n = Some (u\<lparr>socketId := Some sock\<rparr>) \<and>
             map_of (activeConnections s') sock = Some n \<and>
             signInRequests s' = signInRequests s \<and> messages s' = messages s"
    using register_offline_user [of d n s u sock now] by blast
next
  assume "lud_number ld = Some n \<and> is_identifier n \<and>
    find (\<lambda>v. l_number v = n) (map snd (l_users ls)) = Some lu \<and> l_socketId lu = None"
  then show "legacy_register ls sock ld =
        (ls, [(sock, LegacyError (js ''This number is already taken''))])"
    using legacy_register_taken [of ld n ls lu sock] by simp
qed

theorem register_signs_in_offline_user_witness:
  "(\<exists>s'. register alice_offline (js ''c2'')
           ((only_number (str ''1111''))\<lparr>ud_nickname := Some (js ''Mallory'')\<rparr>) 5 =
           Done s' [Emit (js ''c2'') (Registered (str ''1111'') (fresh_user (str ''1111'') (Some (js ''c2''))))] \<and>
         users s' = [(str ''1111'', fresh_user (str ''1111'') (Some (js ''c2'')))] \<and>
         map_of (activeConnections s') (js ''c2'') = Some (str ''1111'') \<and>
         signInRequests s' = []) \<and>
   legacy_register legacy_alice_offline (js ''c2'') (legacy_only_number (str ''1111'')) =
     (legacy_alice_offline, [(js ''c2'', LegacyError (js ''This number is already taken''))])"
proof -
  have a: "ud_number ((only_number (str ''1111''))\<lparr>ud_nickname := Some (js ''Mallory'')\<rparr>)
             = Some (str ''1111'') \<and>
           is_identifier (str ''1111'') \<and>
           map_of (users alice_offline) (str ''1111'') = Some (fresh_user (str ''1111'') None) \<and>
           socketId (fresh_user (str ''1111'') None) = None"
    by (simp add: only_number_def fd alice_offline_def fresh_user_def)
  have b: "lud_number (legacy_only_number (str ''1111'')) = Some (str ''1111'') \<and>
           is_identifier (str ''1111'') \<and>
           find (\<lambda>v. l_number v = str ''1111'') (map snd (l_users legacy_alice_offline))
             = Some (legacy_fresh_user (str ''1111'') None) \<and>
           l_socketId (legacy_fresh_user (str ''1111'') None) = None"
    by (simp add: legacy_only_number_def fd legacy_alice_offline_def legacy_fresh_user_def)
  show ?thesis
    using a b register_signs_in_offline_user
      [where d = "(only_number (str ''1111''))\<lparr>ud_nickname := Some (js ''Mallory'')\<rparr>"
         and n = "str ''1111''" and s = alice_offline and u = "fresh_user (str ''1111'') None"
         and sock = "js ''c2''" and now = 5 and ld = "legacy_only_number (str ''1111'')"
         and ls = legacy_alice_offline and lu = "legacy_fresh_user (str ''1111'') None"]
    by (auto simp: alice_offline_def fresh_user_def)
qed

text \<open>
  C5. When the user \<open>n\<close> exists and its live session is the connection \<open>c1\<close>, a \<open>register\<close>
  call for \<open>n\<close> from a connection \<open>c2\<close> writes exactly one entry of the pending sign-in
  requests (the request of \<open>c2\<close> for \<open>n\<close>, under the identifier derived from the clock),
  sends \<open>signInRequest\<close> to \<open>c1\<close> and \<open>awaitingAuthorization\<close> to \<open>c2\<close>, and leaves the users,
  the bindings of connections and the messages as they were.
\<close>

theorem register_conflict_creates_request:
  assumes "ud_number d = Some n" and "is_identifier n"
    and "map_of (users s) n = Some u" and "socketId u = Some c1" and "c1 \<noteq> []"
  shows "\<exists>s'. register s c2 d now =
             Done s' [Emit c1 (SignInRequestEv (toString now)),
                      Emit c2 (AwaitingAuthorization
                        (js ''Waiting for authorization from your other device...''))] \<and>
           map_of (signInRequests s') =
             (map_of (signInRequests s))(toString now \<mapsto> \<lparr>req_number = n, requestingSocketId = c2\<rparr>) \<and>
           users s' = users s \<and> activeConnections s' = activeConnections s \<and>
           messages s' = messages s"
proof -
  from assms(4,5) have "live_socket u = Some c1" by (simp add: live_socket_def truthy_def)
  then show ?thesis
    using register_existing [OF assms(1,2,3), of c2 now]
    by (simp add: update_conv')
qed

theorem register_conflict_creates_request_witness:
  "\<exists>s'. register alice_online (js ''c2'') (only_number (str ''1111'')) 42 =
           Done s' [Emit (js ''c1'') (SignInRequestEv (js ''42'')),
                    Emit (js ''c2'') (AwaitingAuthorization
                      (js ''Waiting for authorization from your other device...''))] \<and>
         map_of (signInRequests s') =
           [js ''42'' \<mapsto> \<lparr>req_number = str ''1111'', requestingSocketId = js ''c2''\<rparr>] \<and>
         users s' = users alice_online \<and> activeConnections s' = activeConnections alice_online"
proof -
  have a: "ud_number (only_number (str ''1111'')) = Some (str ''1111'')"
    by (simp add: only_number_def)
  have b: "is_identifier (str ''1111'')"
    by (rule fd)
  have c: "map_of (users alice_online) (str ''1111'') = Some (fresh_user (str ''1111'') (Some (js ''c1'')))"
    by (simp add: alice_online_def)
  have d: "socketId (fresh_user (str ''1111'') (Some (js ''c1''))) = Some (js ''c1'')"
    by (simp add: fresh_user_def)
  have e: "js ''c1'' \<noteq> []"
    by (simp add: js_def)
  have f: "toString 42 = js ''42''"
    by (simp add: toString.simps js_def)
  show ?thesis
    using register_conflict_creates_request [OF a b c d e, of "js ''c2''" 42]
    by (auto simp: alice_online_def f)
qed

section \<open>Sending a message: the failure branches\<close>

lemma find_by_number_None:
  "find_by_number s n = None \<longleftrightarrow> (\<forall>u \<in> snd ` set (users s). number u \<noteq> n)"
  by (auto simp: find_by_number_def find_None_iff)

text \<open>
  C7. \<open>sendMessage\<close> from a connection that is bound to no user emits \<open>Not registered\<close> to
  the caller; from a bound connection to a number that no stored user carries it emits
  \<open>Recipient not found\<close>. In both cases that error is the only effect and the state, the
  conversation logs included, is returned as it was.
\<close>

theorem sendMessage_failures_leave_state:
  "(map_of (activeConnections s) sock = None \<longrightarrow>
      sendMessage s sock to body now = Done s [Emit sock (ErrorEv (js ''Not registered''))]) \<and>
   (map_of (activeConnections s) sock = Some sender \<and> js_truthy sender \<and>
    (\<forall>u \<in> snd ` set (users s). number u \<noteq> to) \<longrightarrow>
      sendMessage s sock to body now = Done s [Emit sock (ErrorEv (js ''Recipient not found''))])"
  using find_by_number_None [of s to]
  by (auto simp: sendMessage_def bound_user_def truthy_def)

theorem sendMessage_failures_leave_state_witness:
  "map_of (activeConnections init) (js ''c1'') = None \<and>
   sendMessage init (js ''c1'') (str ''2222'') (js ''hi'') 9 =
     Done init [Emit (js ''c1'') (ErrorEv (js ''Not registered''))] \<and>
   map_of (activeConnections alice_online) (js ''c1'') = Some (str ''1111'') \<and>
   list_all (\<lambda>u. number u \<noteq> str ''2222'') (map snd (users alice_online)) \<and>
   sendMessage alice_online (js ''c1'') (str ''2222'') (js ''hi'') 9 =
     Done alice_online [Emit (js ''c1'') (ErrorEv (js ''Recipient not found''))]"
proof -
  have a: "map_of (activeConnections init) (js ''c1'') = None"
    by (simp add: init_def)
  have b: "map_of (activeConnections alice_online) (js ''c1'') = Some (str ''1111'')"
    by (simp add: alice_online_def)
  have c: "js_truthy (str ''1111'')"
    by (rule ne)
  have d: "list_all (\<lambda>u. number u \<noteq> str ''2222'') (map snd (users alice_online))"
    by (simp add: alice_online_def fresh_user_def ne)
  then have d': "\<forall>u \<in> snd ` set (users alice_online). number u \<noteq> str ''2222''"
    by (simp add: list_all_iff)
  show ?thesis
    using a b c d d'
      sendMessage_failures_leave_state [where s = init and sock = "js ''c1''" and to = "str ''2222''"
        and body = "js ''hi''" and now = 9 and sender = "str ''1111''"]
      sendMessage_failures_leave_state [where s = alice_online and sock = "js ''c1''"
        and to = "str ''2222''" and body = "js ''hi''" and now = 9 and sender = "str ''1111''"]
    by blast
qed

section \<open>Conversation keys and delivery\<close>

lemma js_lt_asym: "js_lt a b \<Longrightarrow> \<not> js_lt b a"
  by (induction a b rule: js_lt.induct) auto

lemma js_lt_total: "\<not> js_lt a b \<Longrightarrow> \<not> js_lt b a \<Longrightarrow> a = b"
  by (induction a b rule: js_lt.induct) auto

lemma chatId_eq:
  "chatId a b = (if js_lt (text_of b) (text_of a) then text_of b @ js ''-'' @ text_of a
                 else text_of a @ js ''-'' @ text_of b)"
  by (simp add: chatId_def js_sort_def)

lemma chatId_sym: "chatId a b = chatId b a"
  using js_lt_asym [of "text_of a" "text_of b"] js_lt_asym [of "text_of b" "text_of a"]
    js_lt_total [of "text_of a" "text_of b"]
  by (auto simp: chatId_eq)

lemma bound_user_Some:
  "map_of (activeConnections s) c = Some u \<Longrightarrow> js_truthy u \<Longrightarrow> bound_user s c = Some u"
  by (simp add: bound_user_def)

lemma chat_log_update:
  "chat_log (s\<lparr>messages := AList.update k v (messages s)\<rparr>) k' =
     (if k' = k then v else chat_log s k')"
  by (simp add: chat_log_def update_conv')

lemma sendMessage_done:
  assumes "bound_user s sock = Some sender" and "find_by_number s to = Some toUser"
    and "map_of (users s) sender = Some fromUser"
  shows "sendMessage s sock to body now =
     Done (s\<lparr>messages := AList.update (chatId sender to)
                 (chat_log s (chatId sender to) @ [sent sender to body now]) (messages s)\<rparr>)
          (Emit sock (MessageSent (sent sender to body now)) #
           (case live_socket toUser of
              Some c \<Rightarrow> [Emit c (MessageReceived (sent sender to body now))]
            | None \<Rightarrow> []) @
           (if truthy (email toUser) \<and> trim (email toUser) \<noteq> []
            then [SendMail \<lparr>mail_to = email toUser, mail_nickname = nickname fromUser,
                    mail_number = text_of (number fromUser), mail_lastname = lastname fromUser,
                    mail_text = body\<rparr>] else []))"
  using assms by (simp add: sendMessage_def Let_def sent_def split: option.split)

lemma getChatHistory_done:
  "bound_user s c = Some u \<Longrightarrow>
   getChatHistory s c t = Done s [Emit c (ChatHistory t (chat_log s (chatId u t)))]"
  by (simp add: getChatHistory_def)



text \<open>
  C9. The conversation key is symmetric: \<open>chatId x y = chatId y x\<close> for all values. So when
  \<open>a\<close> (on connection \<open>ca\<close>) sends a message to \<open>b\<close> (on connection \<open>cb\<close>) and their log was
  empty, \<open>getChatHistory\<close> of \<open>a\<close> for \<open>b\<close> and of \<open>b\<close> for \<open>a\<close> both return the one-element
  sequence holding that message.
\<close>

theorem chatId_symmetric_history:
  "chatId x y = chatId y x \<and>
   (map_of (activeConnections s) ca = Some a \<and> js_truthy a \<and>
    map_of (activeConnections s) cb = Some b \<and> js_truthy b \<and>
    find_by_number s b = Some ub \<and> map_of (users s) a = Some ua \<and>
    chat_log s (chatId a b) = [] \<longrightarrow>
    (\<exists>s' out. sendMessage s ca b body now = Done s' out \<and>
       getChatHistory s' ca b = Done s' [Emit ca (ChatHistory b [sent a b body now])] \<and>
       getChatHistory s' cb a = Done s' [Emit cb (ChatHistory a [sent a b body now])]))"
proof (intro conjI impI)
  show "chatId x y = chatId y x" by (rule chatId_sym)
next
  assume h: "map_of (activeConnections s) ca = Some a \<and> js_truthy a \<and>
    map_of (activeConnections s) cb = Some b \<and> js_truthy b \<and>
    find_by_number s b = Some ub \<and> map_of (users s) a = Some ua \<and>
    chat_log s (chatId a b) = []"
  let ?s' = "s\<lparr>messages := AList.update (chatId a b)
                 (chat_log s (chatId a b) @ [sent a b body now]) (messages s)\<rparr>"
  have ba: "bound_user s ca = Some a" and bb: "bound_user s cb = Some b"
    using h by (simp_all add: bound_user_Some)
  have ba': "bound_user ?s' ca = Some a" and bb': "bound_user ?s' cb = Some b"
    using ba bb by (simp_all add: bound_user_def)
  from h have fb: "find_by_number s b = Some ub" and ua: "map_of (users s) a = Some ua"
    and empty: "chat_log s (chatId a b) = []" by simp_all
  have "\<exists>out. sendMessage s ca b body now = Done ?s' out"
    using sendMessage_done [OF ba fb ua, of body now] by simp
  moreover have "getChatHistory ?s' ca b = Done ?s' [Emit ca (ChatHistory b [sent a b body now])]"
    using getChatHistory_done [OF ba', of b] empty by (simp add: chat_log_update)
  moreover have "getChatHistory ?s' cb a = Done ?s' [Emit cb (ChatHistory a [sent a b body now])]"
    using getChatHistory_done [OF bb', of a] empty chatId_sym [of b a]
    by (simp add: chat_log_update)
  ultimately show "\<exists>s' out. sendMessage s ca b body now = Done s' out \<and>
       getChatHistory s' ca b = Done s' [Emit ca (ChatHistory b [sent a b body now])] \<and>
       getChatHistory s' cb a = Done s' [Emit cb (ChatHistory a [sent a b body now])]"
    by blast
qed

theorem chatId_symmetric_history_witness:
  "chatId (str ''9000'') (str ''1234'') = chatId (str ''1234'') (str ''9000'') \<and>
   (\<exists>s' out. sendMessage alice_bob_online (js ''c1'') (str ''2222'') (js ''hi'') 9 = Done s' out \<and>
      getChatHistory s' (js ''c1'') (str ''2222'') =
        Done s' [Emit (js ''c1'') (ChatHistory (str ''2222'') [sent (str ''1111'') (str ''2222'') (js ''hi'') 9])] \<and>
      getChatHistory s' (js ''c2'') (str ''1111'') =
        Done s' [Emit (js ''c2'') (ChatHistory (str ''1111'') [sent (str ''1111'') (str ''2222'') (js ''hi'') 9])])"
proof -
  have h: "map_of (activeConnections alice_bob_online) (js ''c1'') = Some (str ''1111'') \<and>
    js_truthy (str ''1111'') \<and>
    map_of (activeConnections alice_bob_online) (js ''c2'') = Some (str ''2222'') \<and>
    js_truthy (str ''2222'') \<and>
    find_by_number alice_bob_online (str ''2222'') = Some (fresh_user (str ''2222'') (Some (js ''c2''))) \<and>
    map_of (users alice_bob_online) (str ''1111'') = Some (fresh_user (str ''1111'') (Some (js ''c1''))) \<and>
    chat_log alice_bob_online (chatId (str ''1111'') (str ''2222'')) = []"
    by (simp add: alice_bob_online_def find_by_number_def fresh_user_def chat_log_def ne)
  show ?thesis
    using h chatId_symmetric_history [where x = "str ''9000''" and y = "str ''1234''"
        and s = alice_bob_online and ca = "js ''c1''" and a = "str ''1111''" and cb = "js ''c2''"
        and b = "str ''2222''" and ub = "fresh_user (str ''2222'') (Some (js ''c2''))"
        and ua = "fresh_user (str ''1111'') (Some (js ''c1''))" and body = "js ''hi''" and now = 9]
    by blast
qed

section \<open>What every reachable state satisfies\<close>

lemma set_update_subset: "set (AList.update k v al) \<subseteq> insert (k, v) (set al)"
  by (induction al) auto

lemma users_ok_update:
  "users_ok us \<Longrightarrow> number u = k \<Longrightarrow> is_identifier k \<Longrightarrow> users_ok (AList.update k u us)"
  using set_update_subset [of k u us] by (auto simp: users_ok_def)


lemma logs_ok_update_users [simp]: "logs_ok us ms \<Longrightarrow> logs_ok (AList.update k v us) ms"
  by (simp add: logs_ok_def dom_update)

lemma users_ok_lookup:
  "users_ok us \<Longrightarrow> map_of us k = Some u \<Longrightarrow> number u = k \<and> is_identifier k"
  by (auto simp: users_ok_def dest: map_of_SomeD)

lemma bindings_inj:
  "bindings_ok us ac \<Longrightarrow> map_of ac c = Some k \<Longrightarrow> map_of ac c' = Some k \<Longrightarrow> c = c'"
proof -
  assume a: "bindings_ok us ac" and b: "map_of ac c = Some k" and b': "map_of ac c' = Some k"
  from a b obtain u where "map_of us k = Some u" "socketId u = Some c"
    unfolding bindings_ok_def by blast
  moreover from a b' obtain u' where "map_of us k = Some u'" "socketId u' = Some c'"
    unfolding bindings_ok_def by blast
  ultimately show "c = c'" by simp
qed

lemma bindings_bind:
  assumes "bindings_ok us ac" and "c \<noteq> []" and "socketId u = Some c"
    and "\<And>c'. map_of ac c' = Some k \<Longrightarrow> c' = c"
  shows "bindings_ok (AList.update k u us) (AList.update c k ac)"
  unfolding bindings_ok_def
proof (intro allI impI)
  fix d j assume h: "map_of (AList.update c k ac) d = Some j"
  show "d \<noteq> [] \<and> (\<exists>v. map_of (AList.update k u us) j = Some v \<and> socketId v = Some d)"
  proof (cases "d = c")
    case True
    with h assms(2,3) show ?thesis by (simp add: update_conv')
  next
    case False
    with h have old: "map_of ac d = Some j" by (simp add: update_conv')
    with assms(4) False have "j \<noteq> k" by blast
    with old assms(1) show ?thesis by (simp add: bindings_ok_def update_conv')
  qed
qed

lemma bindings_unbind:
  assumes "bindings_ok us ac" and "map_of ac c = Some k"
  shows "bindings_ok (AList.update k u us) (AList.delete c ac)"
  unfolding bindings_ok_def
proof (intro allI impI)
  fix d j assume h: "map_of (AList.delete c ac) d = Some j"
  then have dc: "d \<noteq> c" and old: "map_of ac d = Some j"
    by (auto simp: delete_conv' split: if_splits)
  from bindings_inj [OF assms(1) old] assms(2) dc have "j \<noteq> k" by blast
  with old assms(1)
  show "d \<noteq> [] \<and> (\<exists>v. map_of (AList.update k u us) j = Some v \<and> socketId v = Some d)"
    by (simp add: bindings_ok_def update_conv')
qed

lemma bindings_delete:
  assumes "bindings_ok us ac"
  shows "bindings_ok us (AList.delete c ac)"
  using assms by (auto simp: bindings_ok_def delete_conv' split: if_splits)

lemma bindings_same_socket:
  assumes "bindings_ok us ac" and "map_of us k = Some u" and "socketId u' = socketId u"
  shows "bindings_ok (AList.update k u' us) ac"
  unfolding bindings_ok_def
proof (intro allI impI)
  fix d j assume h: "map_of ac d = Some j"
  with assms(1) obtain v where v: "d \<noteq> []" "map_of us j = Some v" "socketId v = Some d"
    unfolding bindings_ok_def by blast
  show "d \<noteq> [] \<and> (\<exists>v. map_of (AList.update k u' us) j = Some v \<and> socketId v = Some d)"
    using v assms(2,3) by (cases "j = k") (simp_all add: update_conv')
qed

lemma requests_ok_update:
  "requests_ok rs \<Longrightarrow> requestingSocketId q \<noteq> [] \<Longrightarrow> requests_ok (AList.update r q rs)"
  by (auto simp: requests_ok_def update_conv')

lemma requests_ok_delete: "requests_ok rs \<Longrightarrow> requests_ok (AList.delete r rs)"
  by (auto simp: requests_ok_def delete_conv' split: if_splits)

lemma bound_userD:
  "bound_user s c = Some k \<Longrightarrow> map_of (activeConnections s) c = Some k \<and> js_truthy k"
  by (auto simp: bound_user_def split: option.splits if_splits)

lemma find_by_numberD:
  "find_by_number s n = Some u \<Longrightarrow> number u = n \<and> (\<exists>k. (k, u) \<in> set (users s))"
  by (auto simp: find_by_number_def find_Some_iff) (metis nth_mem prod.collapse)


lemma register_new:
  assumes "ud_number d = Some n" and "is_identifier n" and "map_of (users s) n = None"
  shows "\<exists>u. number u = n \<and> socketId u = Some sock \<and>
     register s sock d now =
       Done (s\<lparr>users := AList.update n u (users s),
               activeConnections := AList.update sock n (activeConnections s)\<rparr>)
            [Emit sock (Registered n u)]"
proof -
  from assms(2) have "\<not> (\<not> js_truthy n \<or> js_length n \<noteq> Some 4 \<or> \<not> test_d4 (text_of n))"
    using guard_iff [of n] by blast
  with assms(1,3) show ?thesis
    by (simp add: register_def Let_def)
qed

lemma wf_bound:
  assumes "wf_state s" and "bound_user s c = Some k"
  shows "\<exists>u. map_of (activeConnections s) c = Some k \<and> map_of (users s) k = Some u \<and>
           socketId u = Some c \<and> number u = k \<and> is_identifier k \<and> c \<noteq> []"
proof -
  from bound_userD [OF assms(2)] have ac: "map_of (activeConnections s) c = Some k" by simp
  with assms(1) obtain u where u: "c \<noteq> []" "map_of (users s) k = Some u" "socketId u = Some c"
    unfolding wf_state_def bindings_ok_def by blast
  from assms(1) u(2) have "number u = k \<and> is_identifier k"
    unfolding wf_state_def using users_ok_lookup by blast
  with ac u show ?thesis by blast
qed

lemma register_wf:
  assumes wf: "wf_state s" and sock: "sock \<noteq> []" and r: "register s sock d now = Done s' out"
  shows "wf_state s'"
proof (cases "\<exists>n. ud_number d = Some n \<and> is_identifier n")
  case False
  from register_malformed [OF False, of s sock now] r wf show ?thesis by simp
next
  case True
  then obtain n where n: "ud_number d = Some n" "is_identifier n" by blast
  from wf have U: "users_ok (users s)" and B: "bindings_ok (users s) (activeConnections s)"
    and L: "logs_ok (users s) (messages s)" and R: "requests_ok (signInRequests s)"
    by (simp_all add: wf_state_def)
  show ?thesis
  proof (cases "map_of (users s) n")
    case None
    from register_new [OF n None, of sock now] r obtain u where
      u: "number u = n" "socketId u = Some sock" and
      s': "s' = s\<lparr>users := AList.update n u (users s),
               activeConnections := AList.update sock n (activeConnections s)\<rparr>"
      by auto
    have nobody: "\<And>c'. map_of (activeConnections s) c' = Some n \<Longrightarrow> c' = sock"
      using B None unfolding bindings_ok_def by fastforce
    have "users_ok (AList.update n u (users s))"
      using U u(1) n(2) by (rule users_ok_update)
    moreover have "bindings_ok (AList.update n u (users s)) (AList.update sock n (activeConnections s))"
      using B sock u(2) nobody by (rule bindings_bind)
    ultimately show ?thesis using L R by (simp add: s' wf_state_def)
  next
    case (Some u)
    show ?thesis
    proof (cases "live_socket u")
      case None
      from register_existing [OF n Some, of sock now] None r have
        s': "s' = s\<lparr>users := AList.update n (u\<lparr>socketId := Some sock\<rparr>) (users s),
               activeConnections := AList.update sock n (activeConnections s)\<rparr>"
        by simp
      have nobody: "\<And>c'. map_of (activeConnections s) c' = Some n \<Longrightarrow> c' = sock"
      proof -
        fix c' assume "map_of (activeConnections s) c' = Some n"
        with B Some have "c' \<noteq> []" "socketId u = Some c'"
          unfolding bindings_ok_def by fastforce+
        with None show "c' = sock" by (simp add: live_socket_def truthy_def)
      qed
      from U Some have "number u = n" using users_ok_lookup by blast
      then have "users_ok (AList.update n (u\<lparr>socketId := Some sock\<rparr>) (users s))"
        using U n(2) by (intro users_ok_update) simp_all
      moreover have "bindings_ok (AList.update n (u\<lparr>socketId := Some sock\<rparr>) (users s))
          (AList.update sock n (activeConnections s))"
        using B sock _ nobody by (rule bindings_bind) simp
      ultimately show ?thesis using L R by (simp add: s' wf_state_def)
    next
      case (Some other)
      from register_existing [OF n \<open>map_of (users s) n = Some u\<close>, of sock now] Some r have
        s': "s' = s\<lparr>signInRequests :=
                  AList.update (toString now) \<lparr>req_number = n, requestingSocketId = sock\<rparr>
                    (signInRequests s)\<rparr>"
        by simp
      have "requests_ok (AList.update (toString now) \<lparr>req_number = n, requestingSocketId = sock\<rparr>
                    (signInRequests s))"
        using R sock by (intro requests_ok_update) simp_all
      then show ?thesis using U B L by (simp add: s' wf_state_def)
    qed
  qed
qed

lemma approveSignIn_wf:
  assumes wf: "wf_state s" and r: "approveSignIn s sock rid = Done s' out"
  shows "wf_state s'"
proof (cases "map_of (signInRequests s) rid")
  case None
  with r wf show ?thesis by (simp add: approveSignIn_def)
next
  case (Some q)
  note q = this
  show ?thesis
  proof (cases "bound_user s sock")
    case None
    with q r wf show ?thesis by (simp add: approveSignIn_def)
  next
    case (Some k)
    from wf_bound [OF wf Some] obtain u where
      ac: "map_of (activeConnections s) sock = Some k" and u: "map_of (users s) k = Some u"
      and nk: "number u = k" "is_identifier k"
      by blast
    from wf have U: "users_ok (users s)" and B: "bindings_ok (users s) (activeConnections s)"
      and L: "logs_ok (users s) (messages s)" and R: "requests_ok (signInRequests s)"
      by (simp_all add: wf_state_def)
    let ?c = "requestingSocketId q"
    let ?m = "u\<lparr>socketId := Some ?c\<rparr>"
    from r q Some u have
      s': "s' = s\<lparr>users := AList.update k ?m (users s),
                   activeConnections := AList.update ?c k (AList.delete sock (activeConnections s)),
                   signInRequests := AList.delete rid (signInRequests s)\<rparr>"
      by (simp add: approveSignIn_def Let_def)
    from R q have c: "?c \<noteq> []" unfolding requests_ok_def by blast
    have B1: "bindings_ok (AList.update k u (users s)) (AList.delete sock (activeConnections s))"
      using B ac by (rule bindings_unbind)
    have nobody: "\<And>c'. map_of (AList.delete sock (activeConnections s)) c' = Some k \<Longrightarrow> c' = ?c"
    proof -
      fix c' assume "map_of (AList.delete sock (activeConnections s)) c' = Some k"
      then have "c' \<noteq> sock" "map_of (activeConnections s) c' = Some k"
        by (auto simp: delete_conv' split: if_splits)
      with bindings_inj [OF B ac] show "c' = ?c" by blast
    qed
    have "bindings_ok (AList.update k ?m (AList.update k u (users s)))
            (AList.update ?c k (AList.delete sock (activeConnections s)))"
      using B1 c _ nobody by (rule bindings_bind) simp
    then have "bindings_ok (AList.update k ?m (users s))
            (AList.update ?c k (AList.delete sock (activeConnections s)))"
      by simp
    moreover have "users_ok (AList.update k ?m (users s))"
      using U nk by (intro users_ok_update) simp_all
    moreover have "requests_ok (AList.delete rid (signInRequests s))"
      using R by (rule requests_ok_delete)
    ultimately show ?thesis using L by (simp add: s' wf_state_def)
  qed
qed

lemma denySignIn_wf:
  assumes wf: "wf_state s" and r: "denySignIn s sock rid = Done s' out"
  shows "wf_state s'"
proof (cases "map_of (signInRequests s) rid")
  case None
  with r wf show ?thesis by (simp add: denySignIn_def)
next
  case (Some q)
  with r have "s' = s\<lparr>signInRequests := AList.delete rid (signInRequests s)\<rparr>"
    by (simp add: denySignIn_def)
  with wf requests_ok_delete [of "signInRequests s" rid] show ?thesis
    by (simp add: wf_state_def)
qed

lemma updateProfile_wf:
  assumes wf: "wf_state s" and r: "updateProfile s sock p = Done s' out"
  shows "wf_state s'"
proof (cases "bound_user s sock")
  case None
  with r wf show ?thesis by (simp add: updateProfile_def)
next
  case (Some k)
  from wf_bound [OF wf Some] obtain u where
    u: "map_of (users s) k = Some u" and nk: "number u = k" "is_identifier k"
    by blast
  from wf have U: "users_ok (users s)" and B: "bindings_ok (users s) (activeConnections s)"
    and L: "logs_ok (users s) (messages s)" and R: "requests_ok (signInRequests s)"
    by (simp_all add: wf_state_def)
  from r Some u have s': "s' = s\<lparr>users := AList.update k (apply_profile p u) (users s)\<rparr>"
    by (simp add: updateProfile_def Let_def)
  have "users_ok (AList.update k (apply_profile p u) (users s))"
    using U nk by (intro users_ok_update) (simp_all add: apply_profile_def)
  moreover have "bindings_ok (AList.update k (apply_profile p u) (users s)) (activeConnections s)"
    using B u by (rule bindings_same_socket) (simp add: apply_profile_def)
  ultimately show ?thesis using L R by (simp add: s' wf_state_def)
qed

lemma disconnect_wf:
  assumes wf: "wf_state s" and r: "disconnect s sock = Done s' out"
  shows "wf_state s'"
proof (cases "bound_user s sock")
  case None
  with r wf show ?thesis by (simp add: disconnect_def)
next
  case (Some k)
  from wf_bound [OF wf Some] obtain u where
    ac: "map_of (activeConnections s) sock = Some k" and
    u: "map_of (users s) k = Some u" and nk: "number u = k" "is_identifier k"
    by blast
  from wf have U: "users_ok (users s)" and B: "bindings_ok (users s) (activeConnections s)"
    and L: "logs_ok (users s) (messages s)" and R: "requests_ok (signInRequests s)"
    by (simp_all add: wf_state_def)
  from r Some u have s': "s' = s\<lparr>users := AList.update k (u\<lparr>socketId := None\<rparr>) (users s),
       activeConnections := AList.delete sock (activeConnections s)\<rparr>"
    by (simp add: disconnect_def Let_def)
  have "users_ok (AList.update k (u\<lparr>socketId := None\<rparr>) (users s))"
    using U nk by (intro users_ok_update) simp_all
  moreover have "bindings_ok (AList.update k (u\<lparr>socketId := None\<rparr>) (users s))
      (AList.delete sock (activeConnections s))"
    using B ac by (rule bindings_unbind)
  ultimately show ?thesis using L R by (simp add: s' wf_state_def)
qed


lemma logs_ok_append:
  assumes "logs_ok us ms" and "a \<in> fst ` set us" and "b \<in> fst ` set us"
  shows "logs_ok us (AList.update (chatId a b)
           ((case map_of ms (chatId a b) of None \<Rightarrow> [] | Some l \<Rightarrow> l) @ [sent a b body now]) ms)"
  unfolding logs_ok_def
proof (intro allI impI ballI)
  fix k l m
  assume h: "map_of (AList.update (chatId a b)
           ((case map_of ms (chatId a b) of None \<Rightarrow> [] | Some l \<Rightarrow> l) @ [sent a b body now]) ms) k = Some l"
    and m: "m \<in> set l"
  show "k = chatId (msg_from m) (msg_to m) \<and> msg_from m \<in> fst ` set us \<and> msg_to m \<in> fst ` set us"
  proof (cases "k = chatId a b")
    case False
    with h have "map_of ms k = Some l" by (simp add: update_conv')
    with assms(1) m show ?thesis unfolding logs_ok_def by blast
  next
    case True
    with h have l: "l = (case map_of ms (chatId a b) of None \<Rightarrow> [] | Some l \<Rightarrow> l) @ [sent a b body now]"
      by (simp add: update_conv')
    show ?thesis
    proof (cases "m = sent a b body now")
      case True
      with \<open>k = chatId a b\<close> assms(2,3) show ?thesis by (simp add: sent_def)
    next
      case False
      with l m obtain l0 where "map_of ms (chatId a b) = Some l0" "m \<in> set l0"
        by (auto split: option.splits)
      with assms(1) True show ?thesis unfolding logs_ok_def by blast
    qed
  qed
qed

lemma sendMessage_wf:
  assumes wf: "wf_state s" and r: "sendMessage s sock to body now = Done s' out"
  shows "wf_state s'"
proof (cases "bound_user s sock")
  case None
  with r wf show ?thesis by (simp add: sendMessage_def)
next
  case (Some k)
  note k = this
  from wf_bound [OF wf Some] obtain u where
    u: "map_of (users s) k = Some u"
    by blast
  then have nk: "k \<in> fst ` set (users s)"
    by (force dest: map_of_SomeD)
  from wf have U: "users_ok (users s)" and B: "bindings_ok (users s) (activeConnections s)"
    and L: "logs_ok (users s) (messages s)" and R: "requests_ok (signInRequests s)"
    by (simp_all add: wf_state_def)
  show ?thesis
  proof (cases "find_by_number s to")
    case None
    with k r wf show ?thesis by (simp add: sendMessage_def)
  next
    case (Some toUser)
    from find_by_numberD [OF Some] U have to: "to \<in> fst ` set (users s)"
      by (force simp: users_ok_def)
    from sendMessage_done [OF k Some u, of body now] r have
      s': "s' = s\<lparr>messages := AList.update (chatId k to)
                 (chat_log s (chatId k to) @ [sent k to body now]) (messages s)\<rparr>"
      by simp
    have "logs_ok (users s) (AList.update (chatId k to)
                 (chat_log s (chatId k to) @ [sent k to body now]) (messages s))"
      unfolding chat_log_def using L nk to by (rule logs_ok_append)
    then show ?thesis using U B R by (simp add: s' wf_state_def)
  qed
qed

lemma readers_keep_state:
  "getUserByNumber s c n = Done s' out \<Longrightarrow> s' = s"
  "getChatHistory s c n = Done s' out \<Longrightarrow> s' = s"
  "initiateCall s c to x = Done s' out \<Longrightarrow> s' = s"
  "answerCall s c to x = Done s' out \<Longrightarrow> s' = s"
  "iceCandidate s c to x = Done s' out \<Longrightarrow> s' = s"
  "endCall s c to = Done s' out \<Longrightarrow> s' = s"
  by (auto simp: getUserByNumber_def getChatHistory_def initiateCall_def answerCall_def
      iceCandidate_def endCall_def split: option.splits)

lemma step_wf:
  assumes "wf_state s" and "event_socket e \<noteq> []" and "step s e = Done s' out"
  shows "wf_state s'"
proof (cases e)
  case (Register c d t)
  with assms show ?thesis using register_wf by simp
next
  case (ApproveSignIn c r)
  with assms show ?thesis using approveSignIn_wf by simp
next
  case (DenySignIn c r)
  with assms show ?thesis using denySignIn_wf by simp
next
  case (UpdateProfile c p)
  with assms show ?thesis using updateProfile_wf by simp
next
  case (SendMessage c to body t)
  with assms show ?thesis using sendMessage_wf by simp
next
  case (Disconnect c)
  with assms show ?thesis using disconnect_wf by simp
qed (use assms in \<open>auto dest: readers_keep_state\<close>)

lemma run_wf: "wf_state s \<Longrightarrow> run s es = Some s' \<Longrightarrow> wf_state s'"
proof (induction es arbitrary: s)
  case Nil
  then show ?case by simp
next
  case (Cons e es)
  from Cons.prems(2) obtain s1 out where
    "event_socket e \<noteq> []" "step s e = Done s1 out" "run s1 es = Some s'"
    by (auto simp: admissible_def split: if_splits result.splits)
  with Cons.IH step_wf [OF Cons.prems(1)] show ?case by blast
qed

lemma init_wf: "wf_state init"
  by (simp add: wf_state_def init_def users_ok_def bindings_ok_def logs_ok_def requests_ok_def)

lemma reachable_wf: "reachable s \<Longrightarrow> wf_state s"
  using run_wf [OF init_wf] by (auto simp: reachable_def)

section \<open>The concrete states are reachable\<close>

lemma register_fresh:
  "is_identifier n \<Longrightarrow> map_of (users s) n = None \<Longrightarrow>
   register s c (only_number n) t =
     Done (s\<lparr>users := AList.update n (fresh_user n (Some c)) (users s),
             activeConnections := AList.update c n (activeConnections s)\<rparr>)
          [Emit c (Registered n (fresh_user n (Some c)))]"
  using guard_iff [of n]
  by (simp add: register_def only_number_def fresh_user_def or_else_def or_zero_def Let_def)

lemma run_alice_online:
  "run init [Register (js ''c1'') (only_number (str ''1111'')) 0] = Some alice_online"
  by (simp add: register_fresh fd ne init_def alice_online_def)

lemma run_alice_offline:
  "run init [Register (js ''c1'') (only_number (str ''1111'')) 0, Disconnect (js ''c1'')]
     = Some alice_offline"
  by (simp add: register_fresh fd ne init_def alice_offline_def disconnect_def bound_user_def
      truthy_def fresh_user_def)

lemma run_alice_bob_online:
  "run init [Register (js ''c1'') (only_number (str ''1111'')) 0,
             Register (js ''c2'') (only_number (str ''2222'')) 1] = Some alice_bob_online"
  by (simp add: register_fresh fd ne init_def alice_bob_online_def)

lemma run_alice_bob_offline:
  "run init [Register (js ''c1'') (only_number (str ''1111'')) 0,
             Register (js ''c2'') (only_number (str ''2222'')) 1,
             Disconnect (js ''c2'')] = Some alice_bob_offline"
  by (simp add: register_fresh fd ne init_def alice_bob_offline_def disconnect_def bound_user_def
      truthy_def fresh_user_def)

lemma run_twice_registered:
  "run init [Register (js ''c1'') (only_number (str ''1111'')) 0,
             Register (js ''c1'') (only_number (str ''2222'')) 1] = Some twice_registered"
  by (simp add: register_fresh fd ne init_def twice_registered_def)

lemma register_pending:
  "register alice_bob_online (js ''c3'') (only_number (str ''1111'')) 42 =
     Done sign_in_pending
       [Emit (js ''c1'') (SignInRequestEv (js ''42'')),
        Emit (js ''c3'') (AwaitingAuthorization
          (js ''Waiting for authorization from your other device...''))]"
  using register_existing [of "only_number (str ''1111'')" "str ''1111''" alice_bob_online
      "fresh_user (str ''1111'') (Some (js ''c1''))" "js ''c3''" 42] fd(1)
  by (simp add: only_number_def alice_bob_online_def sign_in_pending_def live_socket_def
      fresh_user_def truthy_def ne toString_42)


lemma run_append:
  "run s (es @ fs) = (case run s es of None \<Rightarrow> None | Some s' \<Rightarrow> run s' fs)"
  by (induction es arbitrary: s) (auto split: result.splits)

lemma run_sign_in_pending:
  "run init [Register (js ''c1'') (only_number (str ''1111'')) 0,
             Register (js ''c2'') (only_number (str ''2222'')) 1,
             Register (js ''c3'') (only_number (str ''1111'')) 42] = Some sign_in_pending"
proof -
  have "run init ([Register (js ''c1'') (only_number (str ''1111'')) 0,
                   Register (js ''c2'') (only_number (str ''2222'')) 1] @
                  [Register (js ''c3'') (only_number (str ''1111'')) 42]) =
        (case run init [Register (js ''c1'') (only_number (str ''1111'')) 0,
                        Register (js ''c2'') (only_number (str ''2222'')) 1] of
           None \<Rightarrow> None
         | Some s' \<Rightarrow> run s' [Register (js ''c3'') (only_number (str ''1111'')) 42])"
    by (rule run_append)
  also have "\<dots> = run alice_bob_online [Register (js ''c3'') (only_number (str ''1111'')) 42]"
    by (simp only: run_alice_bob_online option.case)
  also have "\<dots> = Some sign_in_pending"
    by (simp add: register_pending ne)
  finally show ?thesis by simp
qed


lemma reachable_step:
  assumes "reachable s" and "admissible s e" and "step s e = Done s' out"
  shows "reachable s'"
proof -
  from assms(1) obtain es where "run init es = Some s" by (auto simp: reachable_def)
  with assms(2,3) have "run init (es @ [e]) = Some s'" by (simp add: run_append)
  then show ?thesis unfolding reachable_def by blast
qed

section \<open>Approving a sign-in request\<close>

lemma approveSignIn_noop:
  "map_of (signInRequests s) rid = None \<or> map_of (activeConnections s) sock = None \<Longrightarrow>
   approveSignIn s sock rid = Done s []"
  by (auto simp: approveSignIn_def bound_user_def split: option.splits)

lemma approveSignIn_handoff:
  assumes "map_of (signInRequests s) rid = Some q"
    and "map_of (activeConnections s) sock = Some k" and "js_truthy k"
    and "map_of (users s) k = Some u"
  shows "approveSignIn s sock rid =
     Done (s\<lparr>users := AList.update k (u\<lparr>socketId := Some (requestingSocketId q)\<rparr>) (users s),
             activeConnections :=
               AList.update (requestingSocketId q) k (AList.delete sock (activeConnections s)),
             signInRequests := AList.delete rid (signInRequests s)\<rparr>)
          [Emit (requestingSocketId q)
             (SignInApproved k (u\<lparr>socketId := Some (requestingSocketId q)\<rparr>))]"
  using assms by (simp add: approveSignIn_def bound_user_Some Let_def)

lemma find_map_of:
  "users_ok us \<Longrightarrow> find (\<lambda>u. number u = n) (map snd us) = map_of us n"
  by (induction us) (auto simp: users_ok_def)

lemma find_by_number_map_of:
  "wf_state s \<Longrightarrow> find_by_number s n = map_of (users s) n"
  by (simp add: find_by_number_def wf_state_def find_map_of)

text \<open>
  What \<open>approveSignIn\<close> does in a reachable state when the request exists and the approving
  connection is bound to the user \<open>k\<close>: \<open>k\<close> moves to the requesting connection, which is
  told so with the full record, the approving connection loses its binding and the request
  is deleted. When \<open>k\<close> is the user the request names, this is the hand-off.
\<close>

lemma approveSignIn_moves_bound_user:
  assumes wf: "wf_state s" and q: "map_of (signInRequests s) rid = Some q"
    and b: "map_of (activeConnections s) sock = Some k"
  shows "\<exists>u s'. map_of (users s) k = Some u \<and>
     approveSignIn s sock rid =
       Done s' [Emit (requestingSocketId q)
                  (SignInApproved k (u\<lparr>socketId := Some (requestingSocketId q)\<rparr>))] \<and>
     find_by_number s' k = Some (u\<lparr>socketId := Some (requestingSocketId q)\<rparr>) \<and>
     map_of (activeConnections s') (requestingSocketId q) = Some k \<and>
     (requestingSocketId q \<noteq> sock \<longrightarrow> map_of (activeConnections s') sock = None) \<and>
     map_of (signInRequests s') rid = None \<and> wf_state s'"
proof -
  from wf b obtain u where u: "map_of (users s) k = Some u"
    unfolding wf_state_def bindings_ok_def by blast
  with wf have "is_identifier k" unfolding wf_state_def using users_ok_lookup by blast
  then have k: "js_truthy k" by (rule is_identifier_truthy)
  let ?s' = "s\<lparr>users := AList.update k (u\<lparr>socketId := Some (requestingSocketId q)\<rparr>) (users s),
             activeConnections :=
               AList.update (requestingSocketId q) k (AList.delete sock (activeConnections s)),
             signInRequests := AList.delete rid (signInRequests s)\<rparr>"
  have run: "approveSignIn s sock rid =
       Done ?s' [Emit (requestingSocketId q)
                  (SignInApproved k (u\<lparr>socketId := Some (requestingSocketId q)\<rparr>))]"
    using q b k u by (rule approveSignIn_handoff)
  with wf have wf': "wf_state ?s'" by (rule approveSignIn_wf)
  have "find_by_number ?s' k = Some (u\<lparr>socketId := Some (requestingSocketId q)\<rparr>)"
    using find_by_number_map_of [OF wf', of k] by (simp add: update_conv')
  moreover have "map_of (activeConnections ?s') (requestingSocketId q) = Some k"
    by (simp add: update_conv')
  moreover have "requestingSocketId q \<noteq> sock \<longrightarrow> map_of (activeConnections ?s') sock = None"
    by (simp add: update_conv' delete_conv')
  moreover have "map_of (signInRequests ?s') rid = None"
    by (simp add: delete_conv')
  ultimately show ?thesis using u run wf' by blast
qed

text \<open>\<open>sendMessage\<close> delivers \<open>messageReceived\<close> to the \<open>socketId\<close> of the recipient's record.\<close>

lemma sendMessage_follows_socketId:
  assumes "bound_user s x = Some a" and "map_of (users s) a = Some ua"
    and "find_by_number s k = Some v" and "socketId v = Some c" and "c \<noteq> []"
  shows "\<exists>s' rest. sendMessage s x k body now =
           Done s' (Emit x (MessageSent (sent a k body now)) #
                    Emit c (MessageReceived (sent a k body now)) # map SendMail rest)"
proof -
  let ?mails = "if truthy (email v) \<and> trim (email v) \<noteq> []
      then [\<lparr>mail_to = email v, mail_nickname = nickname ua, mail_number = text_of (number ua),
             mail_lastname = lastname ua, mail_text = body\<rparr>] else []"
  from assms(4,5) have "live_socket v = Some c" by (simp add: live_socket_def truthy_def)
  with sendMessage_done [OF assms(1,3,2), of body now]
  have "sendMessage s x k body now =
      Done (s\<lparr>messages := AList.update (chatId a k)
                 (chat_log s (chatId a k) @ [sent a k body now]) (messages s)\<rparr>)
           (Emit x (MessageSent (sent a k body now)) #
            Emit c (MessageReceived (sent a k body now)) # map SendMail ?mails)"
    by simp
  then show ?thesis by blast
qed

text \<open>
  C1 as stated fails when the approving connection is bound to a user other than the one
  the request names. Users 1111 and 2222 are signed in on \<open>c1\<close> and \<open>c2\<close>, and \<open>c3\<close> has
  asked to sign in as 1111, which left the request \<open>42\<close> for 1111. An \<open>approveSignIn\<close> of
  that request from \<open>c2\<close>, which is not the live session of 1111, is not a no-op: it makes
  \<open>c3\<close> the live session of user 2222, removes the binding of \<open>c2\<close>, sends \<open>signInApproved\<close>
  with the record of 2222 to \<open>c3\<close> and deletes the request.
\<close>

theorem approveSignIn_by_other_user:
  "run init [Register (js ''c1'') (only_number (str ''1111'')) 0,
             Register (js ''c2'') (only_number (str ''2222'')) 1,
             Register (js ''c3'') (only_number (str ''1111'')) 42] = Some sign_in_pending \<and>
   map_of (signInRequests sign_in_pending) (js ''42'') =
     Some \<lparr>req_number = str ''1111'', requestingSocketId = js ''c3''\<rparr> \<and>
   map_of (activeConnections sign_in_pending) (js ''c2'') = Some (str ''2222'') \<and>
   map_of (users sign_in_pending) (str ''1111'') =
     Some (fresh_user (str ''1111'') (Some (js ''c1''))) \<and>
   approveSignIn sign_in_pending (js ''c2'') (js ''42'') =
     Done identity_taken
       [Emit (js ''c3'') (SignInApproved (str ''2222'') (fresh_user (str ''2222'') (Some (js ''c3''))))] \<and>
   identity_taken \<noteq> sign_in_pending"
proof (intro conjI)
  show "map_of (users sign_in_pending) (str ''1111'') =
     Some (fresh_user (str ''1111'') (Some (js ''c1'')))"
    by (simp add: sign_in_pending_def)
  show "run init [Register (js ''c1'') (only_number (str ''1111'')) 0,
             Register (js ''c2'') (only_number (str ''2222'')) 1,
             Register (js ''c3'') (only_number (str ''1111'')) 42] = Some sign_in_pending"
    by (rule run_sign_in_pending)
  show "map_of (signInRequests sign_in_pending) (js ''42'') =
     Some \<lparr>req_number = str ''1111'', requestingSocketId = js ''c3''\<rparr>"
    by (simp add: sign_in_pending_def)
  show "map_of (activeConnections sign_in_pending) (js ''c2'') = Some (str ''2222'')"
    by (simp add: sign_in_pending_def ne)
  show "approveSignIn sign_in_pending (js ''c2'') (js ''42'') =
     Done identity_taken
       [Emit (js ''c3'') (SignInApproved (str ''2222'') (fresh_user (str ''2222'') (Some (js ''c3''))))]"
    by (simp add: approveSignIn_def sign_in_pending_def identity_taken_def bound_user_def
        truthy_def fresh_user_def ne Let_def)
  show "identity_taken \<noteq> sign_in_pending"
    by (simp add: identity_taken_def sign_in_pending_def)
qed

text \<open>
  C1, amended. An \<open>approveSignIn\<close> for an unknown request, or from a connection bound to no
  user, has no effect and returns the state as it was. In a reachable state, when the request
  exists and the approving connection is bound to the user the request names, that
  connection is the user's recorded live session, and the call makes the requesting
  connection the user's live session, binds it to the user, removes the binding of the
  approving connection (when the two differ), sends the requesting connection
  \<open>signInApproved\<close> with the full record and deletes the request; a \<open>sendMessage\<close> to that
  user from any bound connection then emits \<open>messageReceived\<close> to the requesting connection
  and no other socket event but the sender's acknowledgment.
\<close>

theorem approveSignIn_hand_off:
  "(map_of (signInRequests s) rid = None \<or> map_of (activeConnections s) sock = None \<longrightarrow>
      approveSignIn s sock rid = Done s []) \<and>
   (reachable s \<and> map_of (signInRequests s) rid = Some q \<and>
    map_of (activeConnections s) sock = Some (req_number q) \<longrightarrow>
      (\<exists>u s'. map_of (users s) (req_number q) = Some u \<and> socketId u = Some sock \<and>
         approveSignIn s sock rid =
           Done s' [Emit (requestingSocketId q)
                      (SignInApproved (req_number q) (u\<lparr>socketId := Some (requestingSocketId q)\<rparr>))] \<and>
         map_of (users s') (req_number q) = Some (u\<lparr>socketId := Some (requestingSocketId q)\<rparr>) \<and>
         map_of (activeConnections s') (requestingSocketId q) = Some (req_number q) \<and>
         (requestingSocketId q \<noteq> sock \<longrightarrow> map_of (activeConnections s') sock = None) \<and>
         map_of (signInRequests s') rid = None \<and>
         (\<forall>x a. map_of (activeConnections s') x = Some a \<longrightarrow>
            (\<exists>s'' mails. sendMessage s' x (req_number q) body now =
               Done s'' (Emit x (MessageSent (sent a (req_number q) body now)) #
                         Emit (requestingSocketId q) (MessageReceived (sent a (req_number q) body now)) #
                         map SendMail mails)))))"
proof (rule conjI; rule impI)
  assume "map_of (signInRequests s) rid = None \<or> map_of (activeConnections s) sock = None"
  then show "approveSignIn s sock rid = Done s []" by (rule approveSignIn_noop)
next
  assume h: "reachable s \<and> map_of (signInRequests s) rid = Some q \<and>
    map_of (activeConnections s) sock = Some (req_number q)"
  let ?k = "req_number q" and ?c = "requestingSocketId q"
  from h have wf: "wf_state s" using reachable_wf by blast
  from h have q: "map_of (signInRequests s) rid = Some q"
    and b: "map_of (activeConnections s) sock = Some ?k" by simp_all
  from approveSignIn_moves_bound_user [OF wf q b] obtain u s' where
    u: "map_of (users s) ?k = Some u" and
    run: "approveSignIn s sock rid =
       Done s' [Emit ?c (SignInApproved ?k (u\<lparr>socketId := Some ?c\<rparr>))]" and
    f: "find_by_number s' ?k = Some (u\<lparr>socketId := Some ?c\<rparr>)" and
    ac: "map_of (activeConnections s') ?c = Some ?k"
      "?c \<noteq> sock \<longrightarrow> map_of (activeConnections s') sock = None" and
    rq: "map_of (signInRequests s') rid = None" and wf': "wf_state s'"
    by blast
  from wf b u have live: "socketId u = Some sock"
    unfolding wf_state_def bindings_ok_def by fastforce
  from wf q have c: "?c \<noteq> []" unfolding wf_state_def requests_ok_def by blast
  from f have m: "map_of (users s') ?k = Some (u\<lparr>socketId := Some ?c\<rparr>)"
    using find_by_number_map_of [OF wf', of ?k] by simp
  have send: "\<forall>x a. map_of (activeConnections s') x = Some a \<longrightarrow>
            (\<exists>s'' mails. sendMessage s' x ?k body now =
               Done s'' (Emit x (MessageSent (sent a ?k body now)) #
                         Emit ?c (MessageReceived (sent a ?k body now)) # map SendMail mails))"
  proof (intro allI impI)
    fix x a assume x: "map_of (activeConnections s') x = Some a"
    with wf' obtain ua where ua: "map_of (users s') a = Some ua"
      unfolding wf_state_def bindings_ok_def by blast
    with wf' have "is_identifier a" unfolding wf_state_def using users_ok_lookup by blast
    then have "js_truthy a" by (rule is_identifier_truthy)
    with x have bx: "bound_user s' x = Some a" by (simp add: bound_user_Some)
    show "\<exists>s'' mails. sendMessage s' x ?k body now =
               Done s'' (Emit x (MessageSent (sent a ?k body now)) #
                         Emit ?c (MessageReceived (sent a ?k body now)) # map SendMail mails)"
      using sendMessage_follows_socketId [OF bx ua f _ c, of body now] by simp
  qed
  show "\<exists>u s'. map_of (users s) ?k = Some u \<and> socketId u = Some sock \<and>
         approveSignIn s sock rid =
           Done s' [Emit ?c (SignInApproved ?k (u\<lparr>socketId := Some ?c\<rparr>))] \<and>
         map_of (users s') ?k = Some (u\<lparr>socketId := Some ?c\<rparr>) \<and>
         map_of (activeConnections s') ?c = Some ?k \<and>
         (?c \<noteq> sock \<longrightarrow> map_of (activeConnections s') sock = None) \<and>
         map_of (signInRequests s') rid = None \<and>
         (\<forall>x a. map_of (activeConnections s') x = Some a \<longrightarrow>
            (\<exists>s'' mails. sendMessage s' x ?k body now =
               Done s'' (Emit x (MessageSent (sent a ?k body now)) #
                         Emit ?c (MessageReceived (sent a ?k body now)) # map SendMail mails)))"
    using u live run m ac rq send by blast
qed

theorem approveSignIn_hand_off_witness:
  "approveSignIn init (js ''c1'') (js ''42'') = Done init [] \<and>
   reachable sign_in_pending \<and>
   approveSignIn sign_in_pending (js ''c1'') (js ''42'') =
     Done handed_over
       [Emit (js ''c3'') (SignInApproved (str ''1111'') (fresh_user (str ''1111'') (Some (js ''c3''))))] \<and>
   (\<exists>s'' mails. sendMessage handed_over (js ''c2'') (str ''1111'') (js ''hi'') 9 =
      Done s'' (Emit (js ''c2'') (MessageSent (sent (str ''2222'') (str ''1111'') (js ''hi'') 9)) #
                Emit (js ''c3'') (MessageReceived (sent (str ''2222'') (str ''1111'') (js ''hi'') 9)) #
                map SendMail mails))"
proof -
  let ?q = "\<lparr>req_number = str ''1111'', requestingSocketId = js ''c3''\<rparr>"
  have n: "map_of (signInRequests init) (js ''42'') = None \<or>
           map_of (activeConnections init) (js ''c1'') = None"
    by (simp add: init_def)
  have r: "reachable sign_in_pending"
    unfolding reachable_def using run_sign_in_pending by blast
  have q: "map_of (signInRequests sign_in_pending) (js ''42'') = Some ?q"
    by (simp add: sign_in_pending_def)
  have b: "map_of (activeConnections sign_in_pending) (js ''c1'') = Some (req_number ?q)"
    by (simp add: sign_in_pending_def)
  have run: "approveSignIn sign_in_pending (js ''c1'') (js ''42'') =
     Done handed_over
       [Emit (js ''c3'') (SignInApproved (str ''1111'') (fresh_user (str ''1111'') (Some (js ''c3''))))]"
    by (simp add: approveSignIn_def sign_in_pending_def handed_over_def bound_user_def
        truthy_def fresh_user_def ne Let_def)
  have x: "map_of (activeConnections handed_over) (js ''c2'') = Some (str ''2222'')"
    by (simp add: handed_over_def)
  from approveSignIn_hand_off [where s = init and rid = "js ''42''" and sock = "js ''c1''"] n
  have first: "approveSignIn init (js ''c1'') (js ''42'') = Done init []" by blast
  from approveSignIn_hand_off [where s = sign_in_pending and rid = "js ''42''" and sock = "js ''c1''"
      and q = ?q and body = "js ''hi''" and now = 9] r q b
  obtain u s' where
    "approveSignIn sign_in_pending (js ''c1'') (js ''42'') =
       Done s' [Emit (requestingSocketId ?q)
                  (SignInApproved (req_number ?q) (u\<lparr>socketId := Some (requestingSocketId ?q)\<rparr>))]"
    and send: "\<forall>x a. map_of (activeConnections s') x = Some a \<longrightarrow>
            (\<exists>s'' mails. sendMessage s' x (req_number ?q) (js ''hi'') 9 =
               Done s'' (Emit x (MessageSent (sent a (req_number ?q) (js ''hi'') 9)) #
                         Emit (requestingSocketId ?q) (MessageReceived (sent a (req_number ?q) (js ''hi'') 9)) #
                         map SendMail mails))"
    by blast
  with run have "s' = handed_over" by simp
  with send x have "\<exists>s'' mails. sendMessage handed_over (js ''c2'') (str ''1111'') (js ''hi'') 9 =
      Done s'' (Emit (js ''c2'') (MessageSent (sent (str ''2222'') (str ''1111'') (js ''hi'') 9)) #
                Emit (js ''c3'') (MessageReceived (sent (str ''2222'') (str ''1111'') (js ''hi'') 9)) #
                map SendMail mails)"
    by fastforce
  with first r run show ?thesis by blast
qed

section \<open>Connections and live sessions\<close>

text \<open>
  C2 as stated fails. When the connection \<open>c1\<close> registers the new number 1111 and then the
  new number 2222, both user records carry \<open>c1\<close> as their \<open>socketId\<close>.
\<close>

theorem two_users_share_connection:
  "run init [Register (js ''c1'') (only_number (str ''1111'')) 0,
             Register (js ''c1'') (only_number (str ''2222'')) 1] = Some twice_registered \<and>
   map_of (users twice_registered) (str ''1111'') = Some (fresh_user (str ''1111'') (Some (js ''c1''))) \<and>
   map_of (users twice_registered) (str ''2222'') = Some (fresh_user (str ''2222'') (Some (js ''c1''))) \<and>
   socketId (fresh_user (str ''1111'') (Some (js ''c1''))) = Some (js ''c1'') \<and>
   socketId (fresh_user (str ''2222'') (Some (js ''c1''))) = Some (js ''c1'') \<and>
   str ''1111'' \<noteq> str ''2222''"
proof (intro conjI)
  show "run init [Register (js ''c1'') (only_number (str ''1111'')) 0,
             Register (js ''c1'') (only_number (str ''2222'')) 1] = Some twice_registered"
    by (rule run_twice_registered)
qed (simp_all add: twice_registered_def fresh_user_def ne)

text \<open>
  C2, amended. In every state the event loop reaches from the empty one, and so after every
  operation of the event surface applied to such a state: a connection that
  \<open>activeConnections\<close> binds to a user is recorded as the \<open>socketId\<close> of that user, whose
  record exists, and no two connections are bound to the same user.
\<close>

theorem bound_connection_is_live_session:
  "(reachable s \<longrightarrow>
      (\<forall>c k. map_of (activeConnections s) c = Some k \<longrightarrow>
         (\<exists>u. map_of (users s) k = Some u \<and> socketId u = Some c)) \<and>
      (\<forall>c c' k. map_of (activeConnections s) c = Some k \<and>
         map_of (activeConnections s) c' = Some k \<longrightarrow> c = c')) \<and>
   (reachable s \<and> event_socket e \<noteq> [] \<and> step s e = Done s' out \<longrightarrow>
      (\<forall>c k. map_of (activeConnections s') c = Some k \<longrightarrow>
         (\<exists>u. map_of (users s') k = Some u \<and> socketId u = Some c)) \<and>
      (\<forall>c c' k. map_of (activeConnections s') c = Some k \<and>
         map_of (activeConnections s') c' = Some k \<longrightarrow> c = c'))"
proof -
  have main: "(\<forall>c k. map_of (activeConnections t) c = Some k \<longrightarrow>
         (\<exists>u. map_of (users t) k = Some u \<and> socketId u = Some c)) \<and>
      (\<forall>c c' k. map_of (activeConnections t) c = Some k \<and>
         map_of (activeConnections t) c' = Some k \<longrightarrow> c = c')" if "wf_state t" for t
  proof -
    from that have B: "bindings_ok (users t) (activeConnections t)" by (simp add: wf_state_def)
    then have "\<forall>c k. map_of (activeConnections t) c = Some k \<longrightarrow>
         (\<exists>u. map_of (users t) k = Some u \<and> socketId u = Some c)"
      unfolding bindings_ok_def by blast
    moreover have "\<forall>c c' k. map_of (activeConnections t) c = Some k \<and>
         map_of (activeConnections t) c' = Some k \<longrightarrow> c = c'"
      using bindings_inj [OF B] by blast
    ultimately show ?thesis by blast
  qed
  show ?thesis
  proof (rule conjI; rule impI)
    assume "reachable s"
    then have "wf_state s" by (rule reachable_wf)
    then show "(\<forall>c k. map_of (activeConnections s) c = Some k \<longrightarrow>
         (\<exists>u. map_of (users s) k = Some u \<and> socketId u = Some c)) \<and>
      (\<forall>c c' k. map_of (activeConnections s) c = Some k \<and>
         map_of (activeConnections s) c' = Some k \<longrightarrow> c = c')"
      by (rule main)
  next
    assume "reachable s \<and> event_socket e \<noteq> [] \<and> step s e = Done s' out"
    then have "wf_state s'" using reachable_wf step_wf by blast
    then show "(\<forall>c k. map_of (activeConnections s') c = Some k \<longrightarrow>
         (\<exists>u. map_of (users s') k = Some u \<and> socketId u = Some c)) \<and>
      (\<forall>c c' k. map_of (activeConnections s') c = Some k \<and>
         map_of (activeConnections s') c' = Some k \<longrightarrow> c = c')"
      by (rule main)
  qed
qed

theorem bound_connection_is_live_session_witness:
  "reachable alice_bob_online \<and>
   step alice_bob_online (Register (js ''c3'') (only_number (str ''1111'')) 42) =
     Done sign_in_pending
       [Emit (js ''c1'') (SignInRequestEv (js ''42'')),
        Emit (js ''c3'') (AwaitingAuthorization
          (js ''Waiting for authorization from your other device...''))] \<and>
   map_of (activeConnections sign_in_pending) (js ''c2'') = Some (str ''2222'') \<and>
   (\<exists>u. map_of (users sign_in_pending) (str ''2222'') = Some u \<and> socketId u = Some (js ''c2'')) \<and>
   (\<exists>u. map_of (users alice_bob_online) (str ''2222'') = Some u \<and> socketId u = Some (js ''c2''))"
proof -
  have r: "reachable alice_bob_online"
    unfolding reachable_def using run_alice_bob_online by blast
  have st: "step alice_bob_online (Register (js ''c3'') (only_number (str ''1111'')) 42) =
     Done sign_in_pending
       [Emit (js ''c1'') (SignInRequestEv (js ''42'')),
        Emit (js ''c3'') (AwaitingAuthorization
          (js ''Waiting for authorization from your other device...''))]"
    by (simp add: register_pending)
  have e: "event_socket (Register (js ''c3'') (only_number (str ''1111'')) 42) \<noteq> []"
    by (simp add: ne)
  have b: "map_of (activeConnections sign_in_pending) (js ''c2'') = Some (str ''2222'')"
    by (simp add: sign_in_pending_def ne)
  have b': "map_of (activeConnections alice_bob_online) (js ''c2'') = Some (str ''2222'')"
    by (simp add: alice_bob_online_def ne)
  show ?thesis
    using r st e b b' bound_connection_is_live_session
      [where s = alice_bob_online and e = "Register (js ''c3'') (only_number (str ''1111'')) 42"
         and s' = sign_in_pending
         and out = "[Emit (js ''c1'') (SignInRequestEv (js ''42'')),
        Emit (js ''c3'') (AwaitingAuthorization
          (js ''Waiting for authorization from your other device...''))]"]
    by blast
qed

section \<open>Whose conversations a connection can read\<close>








section \<open>The codec: which texts come back\<close>

lemma digit_char: "d < 10 \<Longrightarrow> unat (of_nat (48 + d) :: jschar) = 48 + d"
proof -
  assume d: "d < 10"
  have "unat (of_nat (48 + d) :: jschar) = (48 + d) mod 2 ^ LENGTH(16)"
    by (rule unat_of_nat)
  with d show ?thesis by simp
qed

lemma digit_char_value: "d < 10 \<Longrightarrow> digit_value (of_nat (48 + d)) = d"
  using digit_char [of d] by (simp add: digit_value_def word_le_nat_alt)

lemma digit_char_is_digit: "d < 10 \<Longrightarrow> is_digit (of_nat (48 + d))"
  using digit_char [of d] by (simp add: is_digit_def word_le_nat_alt)

lemma toString_digits: "\<forall>c \<in> set (toString n). is_digit c"
proof (induction n rule: toString.induct)
  case (1 n)
  show ?case
  proof (cases "n < 10")
    case True
    then show ?thesis using digit_char_is_digit [of n] by (simp add: toString.simps [of n])
  next
    case False
    then show ?thesis using 1 digit_char_is_digit [of "n mod 10"]
      by (simp add: toString.simps [of n])
  qed
qed

lemma toString_nonempty: "toString n \<noteq> []"
  by (simp add: toString.simps [of n])

lemma toString_value: "foldl (\<lambda>a c. a * 10 + digit_value c) 0 (toString n) = n"
proof (induction n rule: toString.induct)
  case (1 n)
  show ?case
  proof (cases "n < 10")
    case True
    then show ?thesis using digit_char_value [of n] by (simp add: toString.simps [of n])
  next
    case False
    then show ?thesis using 1 digit_char_value [of "n mod 10"]
      by (simp add: toString.simps [of n])
  qed
qed

lemma is_digit_facts:
  assumes "is_digit c"
  shows "\<not> is_ws c" and "c \<noteq> 0x2D" and "c \<noteq> 0x2B" and "c \<noteq> 0x78" and "c \<noteq> 0x58"
    and "digit_value c < 10"
  using assms by (auto simp: is_digit_def is_ws_def digit_value_def word_le_nat_alt)

lemma parseInt_digits:
  assumes "s \<noteq> []" and "\<forall>c \<in> set s. is_digit c"
    and "foldl (\<lambda>a c. a * 10 + digit_value c) 0 s < 2 ^ 53"
  shows "parseInt s = Some (Num (int (foldl (\<lambda>a c. a * 10 + digit_value c) 0 s)))"
proof -
  from assms(1) obtain c r where s: "s = c # r" by (cases s) auto
  with assms(2) have c: "is_digit c" by simp
  have ws: "dropWhile is_ws s = s" using s is_digit_facts(1) [OF c] by simp
  have nohex: "(case s of a # b # r \<Rightarrow> a = 0x30 \<and> (b = 0x78 \<or> b = 0x58) | _ \<Rightarrow> False) = False"
  proof (cases r)
    case Nil
    with s show ?thesis by simp
  next
    case (Cons b r')
    with s assms(2) have "is_digit b" by simp
    from is_digit_facts(4,5) [OF this] s Cons show ?thesis by simp
  qed
  have tw: "takeWhile (\<lambda>c. digit_value c < 10) s = s"
    using assms(2) is_digit_facts(6) by (simp add: takeWhile_eq_all_conv)
  have neg: "(case s of [] \<Rightarrow> False | c # r \<Rightarrow> c = 0x2D) = False"
    using s is_digit_facts(2) [OF c] by simp
  have s2: "(case s of [] \<Rightarrow> [] | c # r \<Rightarrow> if c = 0x2D \<or> c = 0x2B then r else s) = s"
    using s is_digit_facts(2,3) [OF c] by simp
  show ?thesis
    unfolding parseInt_def Let_def ws neg s2 nohex if_False tw
    using assms(1,3) by simp
qed

lemma parseInt_toString: "n < 2 ^ 53 \<Longrightarrow> parseInt (toString n) = Some (Num (int n))"
  using parseInt_digits [OF toString_nonempty toString_digits, of n]
  by (simp add: toString_value)

lemma decode_token_toString:
  "n < 65536 \<Longrightarrow> decode_token (toString n) = Some (decode_code n)"
  using parseInt_toString [of n]
  by (auto simp: decode_token_def decode_code_def fromCharCode_def)


lemma split_on_nonempty: "split_on sep s \<noteq> []"
  by (induction s) (auto split: list.splits)

lemma split_on_plain: "sep \<notin> set x \<Longrightarrow> split_on sep x = [x]"
  by (induction x) auto

lemma split_on_append:
  "sep \<notin> set x \<Longrightarrow> split_on sep (x @ sep # rest) = x # split_on sep rest"
  by (induction x) (auto split: list.splits)

lemma split_on_join:
  "ts \<noteq> [] \<Longrightarrow> \<forall>t \<in> set ts. sep \<notin> set t \<Longrightarrow> split_on sep (join [sep] ts) = ts"
proof (induction "[sep]" ts rule: join.induct)
  case 1
  then show ?case by simp
next
  case (2 x)
  then show ?case by (simp add: split_on_plain)
next
  case (3 x y ys)
  then show ?case using split_on_append [of sep x "join [sep] (y # ys)"] by simp
qed

lemma toString_no_dash: "0x2D \<notin> set (toString n)"
  using toString_digits [of n] is_digit_facts(2) by blast

lemma js_lt_Nil_right: "\<not> js_lt xs []"
  by (cases xs) auto

lemma in_A_Z_Cons:
  "in_A_Z (u # rest) \<longleftrightarrow> 0x41 \<le> u \<and> (u < 0x5A \<or> (u = 0x5A \<and> rest = []))"
  by (cases rest) (auto simp: in_A_Z_def js_def js_lt_Nil_right)

lemma in_A_Z_Nil: "\<not> in_A_Z []"
  by (simp add: in_A_Z_def js_def)

lemma token_code_bound: "token_code up c < 65536"
proof -
  have "unat c < 2 ^ LENGTH(16)" "unat (hd (up c)) < 2 ^ LENGTH(16)"
    by (rule unsigned_less)+
  then show ?thesis by (auto simp: token_code_def)
qed

lemma encode_char_token: "encode_char up c = toString (token_code up c)"
proof (cases "up c")
  case Nil
  then show ?thesis
    by (simp add: encode_char_def token_code_def in_A_Z_Nil js_def toString.simps)
next
  case (Cons u rest)
  then show ?thesis
    by (simp add: encode_char_def token_code_def js_def toString.simps)
qed

lemma those_map_Some: "those (map Some xs) = Some xs"
  by (induction xs) auto

lemma decode_encode_map:
  assumes "x \<noteq> []"
  shows "decodeFromNumbers (encodeToNumbers up x) = Some (map (\<lambda>c. decode_code (token_code up c)) x)"
proof -
  let ?ts = "map (encode_char up) x"
  have "?ts \<noteq> []" using assms by simp
  moreover have "\<forall>t \<in> set ?ts. 0x2D \<notin> set t"
    by (auto simp: encode_char_token toString_no_dash)
  ultimately have split: "split_on 0x2D (join [0x2D] ?ts) = ?ts"
    by (rule split_on_join)
  have eq: "map decode_token ?ts = map Some (map (\<lambda>c. decode_code (token_code up c)) x)"
    by (simp add: encode_char_token decode_token_toString token_code_bound)
  have "decodeFromNumbers (encodeToNumbers up x) = those (map decode_token ?ts)"
    using split by (simp add: decodeFromNumbers_def encodeToNumbers_def js_def)
  also have "\<dots> = those (map Some (map (\<lambda>c. decode_code (token_code up c)) x))"
    by (simp only: eq)
  also have "\<dots> = Some (map (\<lambda>c. decode_code (token_code up c)) x)"
    by (rule those_map_Some)
  finally show ?thesis .
qed

lemma decode_encode_empty: "decodeFromNumbers (encodeToNumbers up []) = Some [0]"
  by (simp add: decodeFromNumbers_def encodeToNumbers_def decode_token_def parseInt_def
      fromCharCode_def)

lemma recode_fixed: "decode_code (token_code up c) = c \<longleftrightarrow> preserved up c"
proof (cases "c = 0x20")
  case True
  then show ?thesis by (simp add: decode_code_def token_code_def preserved_def)
next
  case sp: False
  show ?thesis
  proof (cases "in_A_Z (up c)")
    case True
    then obtain u rest where u: "up c = u # rest"
      using in_A_Z_Nil by (cases "up c") auto
    with True have r: "0x41 \<le> u" "u \<le> 0x5A"
      by (auto simp: in_A_Z_Cons)
    then have n: "65 \<le> unat u" "unat u \<le> 90"
      by (simp_all add: word_le_nat_alt)
    then have "unat u - 64 \<noteq> 0" "unat u - 64 \<le> 26" "unat u - 64 + 64 = unat u"
      by simp_all
    then have "decode_code (unat u - 64) = u"
      by (simp add: decode_code_def)
    with sp True u show ?thesis
      by (simp add: token_code_def preserved_def)
  next
    case False
    have "decode_code (unat c) = c \<longleftrightarrow> 26 < c"
    proof (cases "26 < unat c")
      case True
      then show ?thesis by (simp add: decode_code_def word_less_nat_alt)
    next
      case small: False
      show ?thesis
      proof (cases "unat c = 0")
        case True
        then have "c = 0" by (simp add: unsigned_eq_0_iff)
        with sp show ?thesis by (simp add: decode_code_def)
      next
        case False
        with small have "(of_nat (unat c + 64) :: jschar) \<noteq> c"
          by (simp add: word_eq_iff_unsigned [where ?'a = nat] unat_word_ariths unat_of_nat)
        with small False show ?thesis
          by (simp add: decode_code_def word_less_nat_alt)
      qed
    qed
    with sp False show ?thesis
      by (simp add: token_code_def preserved_def)
  qed
qed

text \<open>
  C4 as stated fails on a lower-case letter. With the upper-casing of ASCII, \<open>a\<close> is encoded
  as \<open>1\<close>, the token of \<open>A\<close>, and decoded as \<open>A\<close>: the text does not come back, and the map
  from characters to tokens is not one-to-one. It fails as well on a character with a code
  from 0 to 26 (the line feed, code 10, comes back as \<open>J\<close>) and on the empty text (which
  comes back as the one character with code 0).
\<close>

theorem codec_folds_case:
  "encodeToNumbers toUpperCase_ascii (js ''a'') = js ''1'' \<and>
   encodeToNumbers toUpperCase_ascii (js ''A'') = js ''1'' \<and>
   decodeFromNumbers (encodeToNumbers toUpperCase_ascii (js ''a'')) = Some (js ''A'') \<and>
   js ''A'' \<noteq> js ''a'' \<and>
   decodeFromNumbers (encodeToNumbers toUpperCase_ascii [0x0A]) = Some (js ''J'') \<and>
   decodeFromNumbers (encodeToNumbers toUpperCase_ascii []) = Some [0]"
proof (intro conjI)
  show "encodeToNumbers toUpperCase_ascii (js ''a'') = js ''1''"
    by (simp add: encodeToNumbers_def encode_char_def toUpperCase_ascii_def in_A_Z_Cons js_def
        toString.simps Let_def)
  show "encodeToNumbers toUpperCase_ascii (js ''A'') = js ''1''"
    by (simp add: encodeToNumbers_def encode_char_def toUpperCase_ascii_def in_A_Z_Cons js_def
        toString.simps Let_def)
  show "decodeFromNumbers (encodeToNumbers toUpperCase_ascii (js ''a'')) = Some (js ''A'')"
    using decode_encode_map [of "js ''a''" toUpperCase_ascii]
    by (simp add: js_def token_code_def decode_code_def toUpperCase_ascii_def in_A_Z_Cons)
  show "js ''A'' \<noteq> js ''a''"
    by (simp add: js_def)
  show "decodeFromNumbers (encodeToNumbers toUpperCase_ascii [0x0A]) = Some (js ''J'')"
    using decode_encode_map [of "[0x0A]" toUpperCase_ascii]
    by (simp add: js_def token_code_def decode_code_def toUpperCase_ascii_def in_A_Z_Cons)
  show "decodeFromNumbers (encodeToNumbers toUpperCase_ascii []) = Some [0]"
    by (rule decode_encode_empty)
qed

text \<open>
  C4, amended. For any upper-casing function, \<open>decodeFromNumbers (encodeToNumbers x)\<close> is \<open>x\<close>
  exactly when \<open>x\<close> is not empty and each of its characters is a space, or has an upper case
  between \<open>A\<close> and \<open>Z\<close> that begins with the character itself (as the letters A to Z have), or
  has an upper case outside that range and a code above 26 (as digits and punctuation
  have).
\<close>

theorem codec_round_trip_iff:
  "decodeFromNumbers (encodeToNumbers up x) = Some x \<longleftrightarrow>
     x \<noteq> [] \<and> (\<forall>c \<in> set x. preserved up c)"
proof (cases "x = []")
  case True
  then show ?thesis by (simp add: decode_encode_empty)
next
  case False
  have "map (\<lambda>c. decode_code (token_code up c)) x = x \<longleftrightarrow> (\<forall>c \<in> set x. preserved up c)"
    using map_eq_conv [of "\<lambda>c. decode_code (token_code up c)" x id]
    by (simp add: recode_fixed)
  with False show ?thesis by (simp add: decode_encode_map)
qed

theorem codec_round_trip_iff_witness:
  "js ''HI 42!'' \<noteq> [] \<and> list_all (preserved toUpperCase_ascii) (js ''HI 42!'') \<and>
   decodeFromNumbers (encodeToNumbers toUpperCase_ascii (js ''HI 42!'')) = Some (js ''HI 42!'')"
proof -
  have h: "js ''HI 42!'' \<noteq> [] \<and> list_all (preserved toUpperCase_ascii) (js ''HI 42!'')"
    by (simp add: js_def preserved_def toUpperCase_ascii_def in_A_Z_Cons)
  show ?thesis
    using h codec_round_trip_iff [of toUpperCase_ascii "js ''HI 42!''"]
    by (simp add: list_all_iff)
qed

end
